theory Spec2Isabelle
  imports Main "HOL-Library.Word" "HOL-Library.Sublist"
begin

unbundle bit_operations_syntax

section \<open>Common types\<close>

type_synonym u8 = "8 word"
type_synonym u16 = "16 word"
type_synonym u32 = "32 word"
type_synonym bytes = "8 word list"

section \<open>Byte order and objects in memory\<close>

text \<open>
  The host's byte order is a parameter (\<open>le = True\<close>: little-endian).  \<open>htons\<close> and
  \<open>htonl\<close> swap the bytes on a little-endian host and are the identity on a big-endian
  one; \<open>ntohs\<close> is the same function as \<open>htons\<close>.
\<close>

definition htons :: "bool \<Rightarrow> u16 \<Rightarrow> u16" where
  "htons le x = (if le then push_bit 8 x OR drop_bit 8 x else x)"

definition ntohs :: "bool \<Rightarrow> u16 \<Rightarrow> u16" where
  "ntohs le x = htons le x"

definition htonl :: "bool \<Rightarrow> u32 \<Rightarrow> u32" where
  "htonl le x =
     (if le then push_bit 24 x OR push_bit 8 (x AND 0xFF00)
                 OR (drop_bit 8 x AND 0xFF00) OR drop_bit 24 x
      else x)"

text \<open>The bytes of a value, most significant byte first (network byte order).\<close>

definition be16 :: "u16 \<Rightarrow> bytes" where
  "be16 x = [ucast (drop_bit 8 x), ucast x]"

definition be32 :: "u32 \<Rightarrow> bytes" where
  "be32 x = [ucast (drop_bit 24 x), ucast (drop_bit 16 x), ucast (drop_bit 8 x), ucast x]"

text \<open>The bytes of a 16-bit or 32-bit object as it lies in the host's memory.\<close>

definition u16_mem :: "bool \<Rightarrow> u16 \<Rightarrow> bytes" where
  "u16_mem le x = (if le then rev (be16 x) else be16 x)"

definition u32_mem :: "bool \<Rightarrow> u32 \<Rightarrow> bytes" where
  "u32_mem le x = (if le then rev (be32 x) else be32 x)"

text \<open>Reading an object from the two or four bytes at the front of a buffer.\<close>

definition word_be :: "bytes \<Rightarrow> 'a::len word" where
  "word_be bs = foldl (\<lambda>acc b. push_bit 8 acc OR ucast b) 0 bs"

definition mem_u16 :: "bool \<Rightarrow> bytes \<Rightarrow> u16" where
  "mem_u16 le bs = word_be (if le then rev (take 2 bs) else take 2 bs)"

definition mem_u32 :: "bool \<Rightarrow> bytes \<Rightarrow> u32" where
  "mem_u32 le bs = word_be (if le then rev (take 4 bs) else take 4 bs)"

text \<open>\<open>a[i]\<close> for an array of 32-bit words lying in the byte buffer \<open>mem\<close>.\<close>

definition load32 :: "bool \<Rightarrow> bytes \<Rightarrow> nat \<Rightarrow> u32" where
  "load32 le mem i = mem_u32 le (take 4 (drop (4 * i) mem))"

definition store32 :: "bool \<Rightarrow> bytes \<Rightarrow> nat \<Rightarrow> u32 \<Rightarrow> bytes" where
  "store32 le mem i v = take (4 * i) mem @ u32_mem le v @ drop (4 * i + 4) mem"

section \<open>Formatting numbers as printf does\<close>

definition digit_char :: "nat \<Rightarrow> char" where
  "digit_char d = ''0123456789abcdef'' ! (d mod 16)"

text \<open>The digits of \<open>n\<close> in base \<open>b\<close>, most significant first, without leading zeros.\<close>

function digits_of :: "nat \<Rightarrow> nat \<Rightarrow> string" where
  "digits_of b n =
     (if n < b \<or> b < 2 then [digit_char n]
      else digits_of b (n div b) @ [digit_char (n mod b)])"
  by pat_completeness auto
termination
  by (relation "measure (\<lambda>(b, n). n)") auto

declare digits_of.simps [simp del]

text \<open>\<open>%d\<close>, \<open>%x\<close>, and \<open>%04x\<close> or \<open>%02x\<close> (zero padding to a minimal width).\<close>

definition fmt_d :: "int \<Rightarrow> string" where
  "fmt_d i = (if i < 0 then CHR ''-'' # digits_of 10 (nat (- i)) else digits_of 10 (nat i))"

definition fmt_x :: "nat \<Rightarrow> string" where
  "fmt_x n = digits_of 16 n"

definition fmt_0x :: "nat \<Rightarrow> nat \<Rightarrow> string" where
  "fmt_0x w n = replicate (w - length (digits_of 16 n)) CHR ''0'' @ digits_of 16 n"

section \<open>Constants of the system and kernel headers\<close>

text \<open>
  \<open>linux/if_ether.h\<close>, \<open>netinet/in.h\<close>, \<open>sys/socket.h\<close>, \<open>net/if.h\<close> and
  \<open>linux/pkt_cls.h\<close> are not among the sources; these are the values the headers give.
\<close>

definition ETH_ALEN :: nat where "ETH_ALEN = 6"
definition ETH_P_IP :: u16 where "ETH_P_IP = 0x0800"
definition ETH_P_IPV6 :: u16 where "ETH_P_IPV6 = 0x86DD"
definition ETH_P_8021Q :: u16 where "ETH_P_8021Q = 0x8100"
definition IPPROTO_TCP :: u8 where "IPPROTO_TCP = 6"
definition IPPROTO_UDP :: u8 where "IPPROTO_UDP = 17"
definition IPPROTO_SCTP :: u8 where "IPPROTO_SCTP = 132"
definition AF_INET :: int where "AF_INET = 2"
definition AF_INET6 :: int where "AF_INET6 = 10"
definition IFNAMSIZ :: nat where "IFNAMSIZ = 16"
definition TCA_CLS_FLAGS_SKIP_HW :: u32 where "TCA_CLS_FLAGS_SKIP_HW = 1"
definition TCA_CLS_FLAGS_SKIP_SW :: u32 where "TCA_CLS_FLAGS_SKIP_SW = 2"

text \<open>
  The attribute identifiers the source names: \<open>TCA_OPTIONS\<close> of \<open>linux/rtnetlink.h\<close>
  and the enumerators of the \<open>TCA_FLOWER_*\<close> enum of \<open>linux/pkt_cls.h\<close>.  The numbers
  are not in the sources; the identifiers are kept symbolic.
\<close>

datatype attr_type =
    TCA_OPTIONS
  | TCA_FLOWER_CLASSID
  | TCA_FLOWER_INDEV
  | TCA_FLOWER_ACT
  | TCA_FLOWER_KEY_ETH_DST
  | TCA_FLOWER_KEY_ETH_DST_MASK
  | TCA_FLOWER_KEY_ETH_SRC
  | TCA_FLOWER_KEY_ETH_SRC_MASK
  | TCA_FLOWER_KEY_ETH_TYPE
  | TCA_FLOWER_KEY_IP_PROTO
  | TCA_FLOWER_KEY_IPV4_SRC
  | TCA_FLOWER_KEY_IPV4_SRC_MASK
  | TCA_FLOWER_KEY_IPV4_DST
  | TCA_FLOWER_KEY_IPV4_DST_MASK
  | TCA_FLOWER_KEY_IPV6_SRC
  | TCA_FLOWER_KEY_IPV6_SRC_MASK
  | TCA_FLOWER_KEY_IPV6_DST
  | TCA_FLOWER_KEY_IPV6_DST_MASK
  | TCA_FLOWER_KEY_TCP_SRC
  | TCA_FLOWER_KEY_TCP_DST
  | TCA_FLOWER_KEY_UDP_SRC
  | TCA_FLOWER_KEY_UDP_DST
  | TCA_FLOWER_FLAGS
  | TCA_FLOWER_KEY_VLAN_ID
  | TCA_FLOWER_KEY_VLAN_PRIO
  | TCA_FLOWER_KEY_VLAN_ETH_TYPE
  | TCA_FLOWER_KEY_SCTP_SRC
  | TCA_FLOWER_KEY_SCTP_DST

section \<open>The netlink message being built\<close>

text \<open>
  An attribute is \<open>(rta_len, rta_type, payload)\<close>.  The message is its length field
  \<open>nlmsg_len\<close>, the two fields of the \<open>tcmsg\<close> header the encoder touches, and the
  attributes written so far, each with the offset of its header in the message.
\<close>

record rtattr =
  rta_len :: nat
  rta_type :: attr_type
  rta_data :: bytes

record nlmsg =
  nlmsg_len :: nat
  tcm_info :: u32
  tcm_handle :: u32
  attrs :: "(nat \<times> rtattr) list"

definition NLMSG_ALIGN :: "nat \<Rightarrow> nat" where
  "NLMSG_ALIGN len = ((len + 3) div 4) * 4"

definition RTA_ALIGN :: "nat \<Rightarrow> nat" where
  "RTA_ALIGN len = ((len + 3) div 4) * 4"

definition RTA_LENGTH :: "nat \<Rightarrow> nat" where
  "RTA_LENGTH len = RTA_ALIGN 4 + len"

definition RTA_PAYLOAD :: "rtattr \<Rightarrow> nat" where
  "RTA_PAYLOAD rta = rta_len rta - RTA_LENGTH 0"

text \<open>
  Modelled from the spec: \<open>addattr_l\<close> and its wrappers (lib/libnetlink.c is not among
  the sources), the put of one length-prefixed typed value at the end of the message.
  It refuses, returning \<open>-1\<close> and leaving the message as it was, when the value does not
  fit into \<open>maxlen\<close>; otherwise it returns \<open>0\<close>.  The result is the pair of the return
  value and the message.
\<close>

definition addattr_l :: "nlmsg \<Rightarrow> nat \<Rightarrow> attr_type \<Rightarrow> bytes \<Rightarrow> int \<times> nlmsg" where
  "addattr_l n maxlen type data =
     (let len = RTA_LENGTH (length data) in
      if NLMSG_ALIGN (nlmsg_len n) + RTA_ALIGN len > maxlen then (- 1, n)
      else (0, n\<lparr> attrs := attrs n @
                       [(NLMSG_ALIGN (nlmsg_len n),
                         \<lparr> rta_len = len, rta_type = type, rta_data = data \<rparr>)],
                   nlmsg_len := NLMSG_ALIGN (nlmsg_len n) + RTA_ALIGN len \<rparr>))"

definition addattr8 :: "nlmsg \<Rightarrow> nat \<Rightarrow> attr_type \<Rightarrow> u8 \<Rightarrow> int \<times> nlmsg" where
  "addattr8 n maxlen type data = addattr_l n maxlen type [data]"

definition addattr16 :: "bool \<Rightarrow> nlmsg \<Rightarrow> nat \<Rightarrow> attr_type \<Rightarrow> u16 \<Rightarrow> int \<times> nlmsg" where
  "addattr16 le n maxlen type data = addattr_l n maxlen type (u16_mem le data)"

definition addattr32 :: "bool \<Rightarrow> nlmsg \<Rightarrow> nat \<Rightarrow> attr_type \<Rightarrow> u32 \<Rightarrow> int \<times> nlmsg" where
  "addattr32 le n maxlen type data = addattr_l n maxlen type (u32_mem le data)"

definition byte_of_char :: "char \<Rightarrow> u8" where
  "byte_of_char c = of_nat (of_char c)"

definition addattrstrz :: "nlmsg \<Rightarrow> nat \<Rightarrow> attr_type \<Rightarrow> string \<Rightarrow> int \<times> nlmsg" where
  "addattrstrz n maxlen type str = addattr_l n maxlen type (map byte_of_char str @ [0])"

section \<open>Collaborators of the encoder\<close>

text \<open>
  \<open>struct inet_prefix\<close> of utils.h, as far as the encoder reads it: \<open>data\<close> is the
  memory of the array of 32-bit words \<open>addr.data\<close>, byte by byte.
\<close>

record inet_prefix =
  family :: int
  bytelen :: nat
  bitlen :: int
  data :: bytes

text \<open>
  The functions of lib/utils.c, lib/ll_addr.c, lib/ll_proto.c, tc/tc_util.c and
  tc/m_action.c that the encoder calls are not among the sources.  They are parameters
  of the model: \<open>None\<close> stands for the failure return of the C function, \<open>Some v\<close> for
  success with the value it stored through its pointer argument.
  \<^item> \<open>matches env cmd pattern\<close> holds when \<^verbatim>\<open>matches(cmd, pattern) == 0\<close>;
  \<^item> \<open>ll_addr_a2n env str\<close> is the content of the buffer \<open>addr\<close> after a call that did
    not return a negative value (the array has \<open>ETH_ALEN\<close> bytes: the encoder takes
    that many, and zeros for bytes the list does not give);
  \<^item> \<open>parse_action env argv n\<close> is the number of tokens the action parser consumed and
    the message it left;
  \<^item> \<open>MAX_MSG\<close> is the constant of tc/tc_util.h and \<open>host_le\<close> the byte order of the host;
  \<^item> \<open>ll_addr_n2a\<close>, \<open>rt_addr_n2a_rta\<close>, \<open>sprint_tc_classid\<close> give the text the decoder
    prints for a link-layer address, an address attribute and a class id, and
    \<open>tc_print_action\<close> the text the action printer writes.
\<close>

record env =
  host_le :: bool
  MAX_MSG :: nat
  matches :: "string \<Rightarrow> string \<Rightarrow> bool"
  get_u8 :: "string \<Rightarrow> nat \<Rightarrow> u8 option"
  get_u16 :: "string \<Rightarrow> nat \<Rightarrow> u16 option"
  get_be16 :: "string \<Rightarrow> nat \<Rightarrow> u16 option"
  get_u32 :: "string \<Rightarrow> nat \<Rightarrow> u32 option"
  get_tc_classid :: "string \<Rightarrow> u32 option"
  ll_addr_a2n :: "string \<Rightarrow> bytes option"
  ll_proto_a2n :: "string \<Rightarrow> u16 option"
  get_prefix :: "string \<Rightarrow> int \<Rightarrow> inet_prefix option"
  parse_action :: "string list \<Rightarrow> attr_type \<Rightarrow> nlmsg \<Rightarrow> (nat \<times> nlmsg) option"
  ll_addr_n2a :: "bytes \<Rightarrow> string"
  rt_addr_n2a_rta :: "int \<Rightarrow> rtattr \<Rightarrow> string"
  sprint_tc_classid :: "u32 \<Rightarrow> string"
  tc_print_action :: "rtattr \<Rightarrow> string"

text \<open>
  How a call ends without a message: \<open>Failed ds\<close> is \<^verbatim>\<open>return -1\<close> after the lines \<open>ds\<close>
  were written to stderr (\<open>Usage\<close> is the text of \<open>explain()\<close>); \<open>Incomplete_Command\<close> is
  \<open>NEXT_ARG()\<close> finding no further token and \<open>Invarg\<close> is the call of \<open>invarg\<close>, both of
  which end the process.
\<close>

datatype diag = Msg string | Usage

datatype error = Failed "diag list" | Incomplete_Command | Invarg string string

section \<open>f\_flower.c: the encoder\<close>

definition memset :: "bytes \<Rightarrow> u8 \<Rightarrow> nat \<Rightarrow> bytes" where
  "memset mem c len = replicate len c @ drop len mem"

definition flower_parse_eth_addr ::
  "env \<Rightarrow> string \<Rightarrow> attr_type \<Rightarrow> attr_type \<Rightarrow> nlmsg \<Rightarrow> error + nlmsg" where
  \<open>flower_parse_eth_addr env str addr_type mask_type n =
     (case ll_addr_a2n env str of
        None \<Rightarrow> Inl (Failed [])
      | Some a \<Rightarrow>
          let addr = take ETH_ALEN (a @ replicate ETH_ALEN 0);
              n1 = snd (addattr_l n (MAX_MSG env) addr_type addr);
              addr' = memset addr 0xff ETH_ALEN;
              n2 = snd (addattr_l n1 (MAX_MSG env) mask_type addr')
          in Inr n2)\<close>

definition flower_parse_vlan_eth_type ::
  "env \<Rightarrow> string \<Rightarrow> u16 \<Rightarrow> attr_type \<Rightarrow> nlmsg \<Rightarrow> error + u16 \<times> nlmsg" where
  \<open>flower_parse_vlan_eth_type env str eth_type type n =
     (if eth_type \<noteq> htons (host_le env) ETH_P_8021Q then
        Inl (Failed [Msg ''Can't set "vlan_ethtype" if ethertype isn't 802.1Q\<newline>''])
      else
        (case ll_proto_a2n env str of
           None \<Rightarrow> Inl (Invarg ''invalid vlan_ethtype'' str)
         | Some vlan_eth_type \<Rightarrow>
             Inr (vlan_eth_type,
                  snd (addattr16 (host_le env) n (MAX_MSG env) type vlan_eth_type))))\<close>

definition flower_parse_ip_proto ::
  "env \<Rightarrow> string \<Rightarrow> u16 \<Rightarrow> attr_type \<Rightarrow> nlmsg \<Rightarrow> error + u8 \<times> nlmsg" where
  \<open>flower_parse_ip_proto env str eth_type type n =
     (if eth_type \<noteq> htons (host_le env) ETH_P_IP \<and> eth_type \<noteq> htons (host_le env) ETH_P_IPV6 then
        Inl (Failed [Msg ''Illegal "eth_type" for ip proto\<newline>''])
      else
        (case (if matches env str ''tcp'' then Some IPPROTO_TCP
               else if matches env str ''udp'' then Some IPPROTO_UDP
               else if matches env str ''sctp'' then Some IPPROTO_SCTP
               else get_u8 env str 16) of
           None \<Rightarrow> Inl (Failed [])
         | Some ip_proto \<Rightarrow>
             Inr (ip_proto, snd (addattr8 n (MAX_MSG env) type ip_proto))))\<close>

text \<open>
  The loop \<^verbatim>\<open>for (i = 0; i < addr.bytelen / 4; i++)\<close> of \<open>flower_parse_ip_addr\<close>, with
  \<open>n = addr.bytelen / 4\<close>.  \<open>bits / 32 >= 1\<close> holds for the same \<open>bits\<close> under C's
  truncating division and under \<open>div\<close>.  The shift \<open>32 - bits\<close> is reached with
  \<open>bits < 32\<close> and \<open>bits \<noteq> 0\<close>; for a negative \<open>bits\<close>, which \<open>get_prefix\<close> does not
  produce, the C shift is undefined (here it shifts every bit out).
\<close>

function prefix_mask_loop :: "bool \<Rightarrow> nat \<Rightarrow> nat \<Rightarrow> int \<Rightarrow> bytes \<Rightarrow> bytes" where
  "prefix_mask_loop le i n bits mem =
     (if i < n then
        (if bits = 0 then
           prefix_mask_loop le (i + 1) n bits (store32 le mem i 0)
         else if bits div 32 \<ge> 1 then
           prefix_mask_loop le (i + 1) n (bits - 32) mem
         else
           prefix_mask_loop le (i + 1) n 0
             (store32 le mem i
                (htonl le (push_bit (nat (32 - bits)) (load32 le mem i)))))
      else mem)"
  by pat_completeness auto
termination
  by (relation "measure (\<lambda>(le, i, n, bits, mem). n - i)") auto

declare prefix_mask_loop.simps [simp del]

text \<open>
  The statements of \<open>flower_parse_ip_addr\<close> from \<^verbatim>\<open>memset(addr.data, 0xff, addr.bytelen)\<close>
  to the end of the loop: the memory of \<open>addr.data\<close> after them.
\<close>

definition flower_prefix_mask :: "bool \<Rightarrow> inet_prefix \<Rightarrow> bytes" where
  "flower_prefix_mask le addr =
     prefix_mask_loop le 0 (bytelen addr div 4) (bitlen addr)
       (memset (data addr) 0xff (bytelen addr))"

definition flower_parse_ip_addr ::
  "env \<Rightarrow> string \<Rightarrow> u16 \<Rightarrow> attr_type \<Rightarrow> attr_type \<Rightarrow> attr_type \<Rightarrow> attr_type \<Rightarrow>
   nlmsg \<Rightarrow> error + nlmsg" where
  \<open>flower_parse_ip_addr env str eth_type addr4_type mask4_type addr6_type mask6_type n =
     (case (if eth_type = htons (host_le env) ETH_P_IP then Some AF_INET
            else if eth_type = htons (host_le env) ETH_P_IPV6 then Some AF_INET6
            else None) of
        None \<Rightarrow> Inl (Failed [Msg ''Illegal "eth_type" for ip address\<newline>''])
      | Some fam \<Rightarrow>
          (case get_prefix env str fam of
             None \<Rightarrow> Inl (Failed [])
           | Some addr \<Rightarrow>
               if family addr \<noteq> fam then Inl (Failed [])
               else
                 let n1 = snd (addattr_l n (MAX_MSG env)
                                 (if family addr = AF_INET then addr4_type else addr6_type)
                                 (take (bytelen addr) (data addr)));
                     mem' = flower_prefix_mask (host_le env) addr;
                     n2 = snd (addattr_l n1 (MAX_MSG env)
                                 (if family addr = AF_INET then mask4_type else mask6_type)
                                 (take (bytelen addr) mem'))
                 in Inr n2))\<close>

text \<open>
  \<open>flower_port_attr_type\<close> returns an enumerator or \<open>-1\<close>: \<open>Some\<close> of the identifier, or
  \<open>None\<close> for \<open>-1\<close> (after the line "Illegal "ip\_proto" for port" on stderr).
\<close>

definition flower_port_attr_type :: "u8 \<Rightarrow> bool \<Rightarrow> attr_type option" where
  "flower_port_attr_type ip_port is_src =
     (if ip_port = IPPROTO_TCP then
        Some (if is_src then TCA_FLOWER_KEY_TCP_SRC else TCA_FLOWER_KEY_TCP_DST)
      else if ip_port = IPPROTO_UDP then
        Some (if is_src then TCA_FLOWER_KEY_UDP_SRC else TCA_FLOWER_KEY_UDP_DST)
      else if ip_port = IPPROTO_SCTP then
        Some (if is_src then TCA_FLOWER_KEY_SCTP_SRC else TCA_FLOWER_KEY_SCTP_DST)
      else None)"

definition flower_parse_port :: "env \<Rightarrow> string \<Rightarrow> u8 \<Rightarrow> bool \<Rightarrow> nlmsg \<Rightarrow> error + nlmsg" where
  \<open>flower_parse_port env str ip_port is_src n =
     (case flower_port_attr_type ip_port is_src of
        None \<Rightarrow> Inl (Failed [Msg ''Illegal "ip_proto" for port\<newline>''])
      | Some type \<Rightarrow>
          (case get_be16 env str 10 of
             None \<Rightarrow> Inl (Failed [])
           | Some port \<Rightarrow> Inr (snd (addattr16 (host_le env) n (MAX_MSG env) type port))))\<close>

text \<open>
  The locals of \<open>flower_parse_opt\<close> that the clause loop reads and writes, and the
  message \<open>n\<close>.
\<close>

record pstate =
  s_eth_type :: u16
  s_vlan_ethtype :: u16
  s_ip_proto :: u8
  s_flags :: u32
  s_msg :: nlmsg

text \<open>
  The \<open>if\<close> chain of the loop body, as the keyword it selects.  The tests are made in
  the order of the source; \<open>help\<close> is compared with \<open>strcmp\<close>.
\<close>

datatype clause =
    K_classid | K_skip_hw | K_skip_sw | K_indev | K_vlan_id | K_vlan_prio | K_vlan_ethtype
  | K_dst_mac | K_src_mac | K_ip_proto | K_dst_ip | K_src_ip | K_dst_port | K_src_port
  | K_action | K_help | K_unknown

definition keyword :: "env \<Rightarrow> string \<Rightarrow> clause" where
  "keyword env a =
     (if matches env a ''classid'' \<or> matches env a ''flowid'' then K_classid
      else if matches env a ''skip_hw'' then K_skip_hw
      else if matches env a ''skip_sw'' then K_skip_sw
      else if matches env a ''indev'' then K_indev
      else if matches env a ''vlan_id'' then K_vlan_id
      else if matches env a ''vlan_prio'' then K_vlan_prio
      else if matches env a ''vlan_ethtype'' then K_vlan_ethtype
      else if matches env a ''dst_mac'' then K_dst_mac
      else if matches env a ''src_mac'' then K_src_mac
      else if matches env a ''ip_proto'' then K_ip_proto
      else if matches env a ''dst_ip'' then K_dst_ip
      else if matches env a ''src_ip'' then K_src_ip
      else if matches env a ''dst_port'' then K_dst_port
      else if matches env a ''src_port'' then K_src_port
      else if matches env a ''action'' then K_action
      else if a = ''help'' then K_help
      else K_unknown)"

text \<open>\<^verbatim>\<open>vlan_ethtype ? vlan_ethtype : eth_type\<close>\<close>

definition effective_eth_type :: "pstate \<Rightarrow> u16" where
  "effective_eth_type st = (if s_vlan_ethtype st \<noteq> 0 then s_vlan_ethtype st else s_eth_type st)"

definition append_diag :: "diag \<Rightarrow> error \<Rightarrow> error" where
  "append_diag d e = (case e of Failed ds \<Rightarrow> Failed (ds @ [d]) | _ \<Rightarrow> e)"

text \<open>
  The branch of the loop body for a keyword that takes one argument \<open>v\<close> (the token
  after \<open>NEXT_ARG()\<close>), from the branch's first statement after \<open>NEXT_ARG()\<close> to its end.
\<close>

definition flower_parse_clause :: "env \<Rightarrow> clause \<Rightarrow> string \<Rightarrow> pstate \<Rightarrow> error + pstate" where
  \<open>flower_parse_clause env kw v st =
     (let le = host_le env; n = s_msg st; mx = MAX_MSG env in
      case kw of
        K_classid \<Rightarrow>
          (case get_tc_classid env v of
             None \<Rightarrow> Inl (Failed [Msg ''Illegal "classid"\<newline>''])
           | Some handle \<Rightarrow>
               Inr (st\<lparr>s_msg := snd (addattr_l n mx TCA_FLOWER_CLASSID (u32_mem le handle))\<rparr>))
      | K_indev \<Rightarrow>
          (let ifname = take (IFNAMSIZ - 1) v in
           Inr (st\<lparr>s_msg := snd (addattrstrz n mx TCA_FLOWER_INDEV ifname)\<rparr>))
      | K_vlan_id \<Rightarrow>
          (if s_eth_type st \<noteq> htons le ETH_P_8021Q then
             Inl (Failed [Msg ''Can't set "vlan_id" if ethertype isn't 802.1Q\<newline>''])
           else
             (case get_u16 env v 10 of
                None \<Rightarrow> Inl (Failed [Msg ''Illegal "vlan_id"\<newline>''])
              | Some vid \<Rightarrow>
                  if vid AND NOT 0xfff \<noteq> 0 then Inl (Failed [Msg ''Illegal "vlan_id"\<newline>''])
                  else Inr (st\<lparr>s_msg := snd (addattr16 le n mx TCA_FLOWER_KEY_VLAN_ID vid)\<rparr>)))
      | K_vlan_prio \<Rightarrow>
          (if s_eth_type st \<noteq> htons le ETH_P_8021Q then
             Inl (Failed [Msg ''Can't set "vlan_prio" if ethertype isn't 802.1Q\<newline>''])
           else
             (case get_u8 env v 10 of
                None \<Rightarrow> Inl (Failed [Msg ''Illegal "vlan_prio"\<newline>''])
              | Some vlan_prio \<Rightarrow>
                  if vlan_prio AND NOT 0x7 \<noteq> 0 then
                    Inl (Failed [Msg ''Illegal "vlan_prio"\<newline>''])
                  else Inr (st\<lparr>s_msg := snd (addattr8 n mx TCA_FLOWER_KEY_VLAN_PRIO vlan_prio)\<rparr>)))
      | K_vlan_ethtype \<Rightarrow>
          (case flower_parse_vlan_eth_type env v (s_eth_type st) TCA_FLOWER_KEY_VLAN_ETH_TYPE n of
             Inl e \<Rightarrow> Inl e
           | Inr (vlan_eth_type, n') \<Rightarrow> Inr (st\<lparr>s_vlan_ethtype := vlan_eth_type, s_msg := n'\<rparr>))
      | K_dst_mac \<Rightarrow>
          (case flower_parse_eth_addr env v TCA_FLOWER_KEY_ETH_DST
                  TCA_FLOWER_KEY_ETH_DST_MASK n of
             Inl e \<Rightarrow> Inl (append_diag (Msg ''Illegal "dst_mac"\<newline>'') e)
           | Inr n' \<Rightarrow> Inr (st\<lparr>s_msg := n'\<rparr>))
      | K_src_mac \<Rightarrow>
          (case flower_parse_eth_addr env v TCA_FLOWER_KEY_ETH_SRC
                  TCA_FLOWER_KEY_ETH_SRC_MASK n of
             Inl e \<Rightarrow> Inl (append_diag (Msg ''Illegal "src_mac"\<newline>'') e)
           | Inr n' \<Rightarrow> Inr (st\<lparr>s_msg := n'\<rparr>))
      | K_ip_proto \<Rightarrow>
          (case flower_parse_ip_proto env v (effective_eth_type st) TCA_FLOWER_KEY_IP_PROTO n of
             Inl e \<Rightarrow> Inl (append_diag (Msg ''Illegal "ip_proto"\<newline>'') e)
           | Inr (proto, n') \<Rightarrow> Inr (st\<lparr>s_ip_proto := proto, s_msg := n'\<rparr>))
      | K_dst_ip \<Rightarrow>
          (case flower_parse_ip_addr env v (effective_eth_type st)
                  TCA_FLOWER_KEY_IPV4_DST TCA_FLOWER_KEY_IPV4_DST_MASK
                  TCA_FLOWER_KEY_IPV6_DST TCA_FLOWER_KEY_IPV6_DST_MASK n of
             Inl e \<Rightarrow> Inl (append_diag (Msg ''Illegal "dst_ip"\<newline>'') e)
           | Inr n' \<Rightarrow> Inr (st\<lparr>s_msg := n'\<rparr>))
      | K_src_ip \<Rightarrow>
          (case flower_parse_ip_addr env v (effective_eth_type st)
                  TCA_FLOWER_KEY_IPV4_SRC TCA_FLOWER_KEY_IPV4_SRC_MASK
                  TCA_FLOWER_KEY_IPV6_SRC TCA_FLOWER_KEY_IPV6_SRC_MASK n of
             Inl e \<Rightarrow> Inl (append_diag (Msg ''Illegal "src_ip"\<newline>'') e)
           | Inr n' \<Rightarrow> Inr (st\<lparr>s_msg := n'\<rparr>))
      | K_dst_port \<Rightarrow>
          (case flower_parse_port env v (s_ip_proto st) False n of
             Inl e \<Rightarrow> Inl (append_diag (Msg ''Illegal "dst_port"\<newline>'') e)
           | Inr n' \<Rightarrow> Inr (st\<lparr>s_msg := n'\<rparr>))
      | K_src_port \<Rightarrow>
          (case flower_parse_port env v (s_ip_proto st) True n of
             Inl e \<Rightarrow> Inl (append_diag (Msg ''Illegal "src_port"\<newline>'') e)
           | Inr n' \<Rightarrow> Inr (st\<lparr>s_msg := n'\<rparr>))
      | _ \<Rightarrow> Inr st)\<close>

text \<open>
  One pass through the body of the loop \<^verbatim>\<open>while (argc > 0)\<close>: \<open>a\<close> is \<open>*argv\<close> and
  \<open>argv\<close> the tokens after it.  \<open>NEXT_ARG()\<close> steps to the token after the keyword and
  ends the process when there is none.  After \<open>action\<close> the action parser takes
  over at that token and the loop continues with what the parser left; every other
  branch ends with \<^verbatim>\<open>argc--; argv++\<close>.  The result is the new state of the locals and
  the number of tokens after the keyword that the pass used up.
\<close>

definition flower_parse_step ::
  "env \<Rightarrow> pstate \<Rightarrow> string \<Rightarrow> string list \<Rightarrow> error + pstate \<times> nat" where
  \<open>flower_parse_step env st a argv =
     (case keyword env a of
        K_skip_hw \<Rightarrow> Inr (st\<lparr>s_flags := s_flags st OR TCA_CLS_FLAGS_SKIP_HW\<rparr>, 0)
      | K_skip_sw \<Rightarrow> Inr (st\<lparr>s_flags := s_flags st OR TCA_CLS_FLAGS_SKIP_SW\<rparr>, 0)
      | K_action \<Rightarrow>
          (if argv = [] then Inl Incomplete_Command
           else
             (case parse_action env argv TCA_FLOWER_ACT (s_msg st) of
                None \<Rightarrow> Inl (Failed [Msg ''Illegal "action"\<newline>''])
              | Some (k, n') \<Rightarrow> Inr (st\<lparr>s_msg := n'\<rparr>, k)))
      | K_help \<Rightarrow> Inl (Failed [Usage])
      | K_unknown \<Rightarrow> Inl (Failed [Msg (''What is "'' @ a @ ''"?\<newline>''), Usage])
      | kw \<Rightarrow>
          (case argv of
             [] \<Rightarrow> Inl Incomplete_Command
           | v # argv' \<Rightarrow>
               (case flower_parse_clause env kw v st of
                  Inl e \<Rightarrow> Inl e
                | Inr st' \<Rightarrow> Inr (st', 1))))\<close>

text \<open>The loop \<^verbatim>\<open>while (argc > 0)\<close> over the tokens \<open>argv\<close>.\<close>

function flower_parse_loop :: "env \<Rightarrow> pstate \<Rightarrow> string list \<Rightarrow> error + pstate" where
  "flower_parse_loop env st [] = Inr st"
| "flower_parse_loop env st (a # argv) =
     (case flower_parse_step env st a argv of
        Inl e \<Rightarrow> Inl e
      | Inr (st', k) \<Rightarrow> flower_parse_loop env st' (drop k argv))"
  by pat_completeness auto
termination
  by (relation "measure (\<lambda>(env, st, argv). length argv)") auto

text \<open>
  The passes the loop makes on \<open>argv\<close>: for each pass, the state of the locals at its
  start and the keyword token it looks at.
\<close>

function clause_states :: "env \<Rightarrow> pstate \<Rightarrow> string list \<Rightarrow> (pstate \<times> string) list" where
  "clause_states env st [] = []"
| "clause_states env st (a # argv) =
     (st, a) # (case flower_parse_step env st a argv of
                  Inl e \<Rightarrow> []
                | Inr (st', k) \<Rightarrow> clause_states env st' (drop k argv))"
  by pat_completeness auto
termination
  by (relation "measure (\<lambda>(env, st, argv). length argv)") auto

text \<open>\<^verbatim>\<open>tail->rta_len = v\<close> for the attribute header at offset \<open>tail\<close> of the message.\<close>

definition set_rta_len :: "nlmsg \<Rightarrow> nat \<Rightarrow> nat \<Rightarrow> nlmsg" where
  "set_rta_len n tail v =
     n\<lparr>attrs := map (\<lambda>(off, a). if off = tail then (off, a\<lparr>rta_len := v\<rparr>) else (off, a))
                   (attrs n)\<rparr>"

text \<open>The statements after the label \<open>parse_done\<close>.\<close>

definition flower_parse_done :: "env \<Rightarrow> nat \<Rightarrow> pstate \<Rightarrow> error + nlmsg" where
  \<open>flower_parse_done env tail st =
     (let le = host_le env;
          n1 = snd (addattr32 le (s_msg st) (MAX_MSG env) TCA_FLOWER_FLAGS (s_flags st));
          (ret, n2) = addattr16 le n1 (MAX_MSG env) TCA_FLOWER_KEY_ETH_TYPE (s_eth_type st)
      in if ret \<noteq> 0 then
           Inl (Failed [Msg (''Illegal "eth_type"(0x'' @ fmt_x (unat (ntohs le (s_eth_type st)))
                             @ '')\<newline>'')])
         else Inr (set_rta_len n2 tail (nlmsg_len n2 - tail)))\<close>

text \<open>
  \<open>flower_parse_opt(qu, handle, argc, argv, n)\<close>: \<open>handle\<close> is \<open>None\<close> for a null
  pointer, \<open>argv\<close> is the list of the \<open>argc\<close> tokens, \<open>TC_H_MIN\<close> takes the low 16 bits
  of \<open>tcm_info\<close>.
\<close>

definition TC_H_MIN :: "u32 \<Rightarrow> u32" where
  "TC_H_MIN h = h AND 0x0000FFFF"

text \<open>
  The statements before the loop: the handle, the pointer \<open>tail\<close> (as an offset into
  the message), the opening of the \<open>TCA_OPTIONS\<close> container, and the initial values
  of the locals.
\<close>

definition flower_parse_start :: "env \<Rightarrow> string option \<Rightarrow> nlmsg \<Rightarrow> error + nat \<times> pstate" where
  \<open>flower_parse_start env handle n =
     (case (case handle of
              None \<Rightarrow> Some n
            | Some h \<Rightarrow> map_option (\<lambda>v. n\<lparr>tcm_handle := v\<rparr>) (get_u32 env h 0)) of
        None \<Rightarrow> Inl (Failed [Msg ''Illegal "handle"\<newline>''])
      | Some n0 \<Rightarrow>
          let tail = NLMSG_ALIGN (nlmsg_len n0);
              n1 = snd (addattr_l n0 (MAX_MSG env) TCA_OPTIONS [])
          in Inr (tail, \<lparr> s_eth_type = ucast (TC_H_MIN (tcm_info n0)), s_vlan_ethtype = 0,
                          s_ip_proto = 0xff, s_flags = 0, s_msg = n1 \<rparr>))\<close>

definition flower_parse_opt :: "env \<Rightarrow> string option \<Rightarrow> string list \<Rightarrow> nlmsg \<Rightarrow> error + nlmsg" where
  "flower_parse_opt env handle argv n =
     (case flower_parse_start env handle n of
        Inl e \<Rightarrow> Inl e
      | Inr (tail, st0) \<Rightarrow>
          (case flower_parse_loop env st0 argv of
             Inl e \<Rightarrow> Inl e
           | Inr st \<Rightarrow> flower_parse_done env tail st))"

text \<open>
  The context in which the source refuses a clause: a VLAN clause when the outer
  ethertype is not 802.1Q, an IP clause when \<^verbatim>\<open>vlan_ethtype ? vlan_ethtype : eth_type\<close>
  is neither IPv4 nor IPv6, a port clause when \<open>ip_proto\<close> is none of TCP, UDP, SCTP.
\<close>

definition gated :: "env \<Rightarrow> pstate \<Rightarrow> string \<Rightarrow> bool" where
  "gated env st a =
     (let kw = keyword env a; le = host_le env in
      (kw \<in> set [K_vlan_id, K_vlan_prio, K_vlan_ethtype] \<and> s_eth_type st \<noteq> htons le ETH_P_8021Q)
      \<or> (kw \<in> set [K_ip_proto, K_dst_ip, K_src_ip]
          \<and> effective_eth_type st \<noteq> htons le ETH_P_IP
          \<and> effective_eth_type st \<noteq> htons le ETH_P_IPV6)
      \<or> (kw \<in> set [K_dst_port, K_src_port]
          \<and> s_ip_proto st \<noteq> IPPROTO_TCP \<and> s_ip_proto st \<noteq> IPPROTO_UDP
          \<and> s_ip_proto st \<noteq> IPPROTO_SCTP))"

text \<open>An error that comes with a diagnostic on stderr.\<close>

fun diagnosed :: "error \<Rightarrow> bool" where
  "diagnosed (Failed ds) = (ds \<noteq> [])"
| "diagnosed Incomplete_Command = True"
| "diagnosed (Invarg m a) = True"

section \<open>f\_flower.c: mask to prefix length\<close>

text \<open>
  \<^verbatim>\<open>((*addr) >> j) & 0x1\<close> for \<open>0 \<le> j \<le> 7\<close>.  The byte is promoted to \<open>int\<close> before the
  shift; whether \<open>char\<close> is signed or not, bit \<open>j\<close> of the promoted value is bit \<open>j\<close> of
  the byte for \<open>j \<le> 7\<close>, so the test is made on the byte itself.
\<close>

definition addr_bit :: "u8 \<Rightarrow> nat \<Rightarrow> bool" where
  "addr_bit a j = ((drop_bit j a) AND 1 \<noteq> 0)"

text \<open>
  The inner loop \<^verbatim>\<open>for (j = 7; j >= 0; j--)\<close> of \<open>__mask_bits\<close>.  The counter \<open>Suc j\<close>
  stands for the iteration that looks at bit \<open>j\<close>; the state is \<open>(bits, hole)\<close>;
  \<open>Inl r\<close> is the early \<^verbatim>\<open>return r\<close>.
\<close>

fun mask_bits_byte :: "u8 \<Rightarrow> nat \<Rightarrow> int \<times> bool \<Rightarrow> int + int \<times> bool" where
  "mask_bits_byte a 0 (bits, hole) = Inr (bits, hole)"
| "mask_bits_byte a (Suc j) (bits, hole) =
     (if addr_bit a j then
        (if hole then Inl (- 1)
         else mask_bits_byte a j (bits + 1, hole))
      else if bits \<noteq> 0 then mask_bits_byte a j (bits, True)
      else Inl (- 1))"

text \<open>The outer loop \<^verbatim>\<open>for (i = 0; i < len; i++, addr++)\<close> and the final \<^verbatim>\<open>return bits\<close>.\<close>

fun mask_bits_loop :: "bytes \<Rightarrow> int \<times> bool \<Rightarrow> int" where
  "mask_bits_loop [] (bits, hole) = bits"
| "mask_bits_loop (a # addr) st =
     (case mask_bits_byte a 8 st of
        Inl r \<Rightarrow> r
      | Inr st' \<Rightarrow> mask_bits_loop addr st')"

text \<open>
  \<open>__mask_bits(addr, len)\<close>: the \<open>len\<close> bytes at \<open>addr\<close> are the list.  The counter
  \<open>bits\<close> is a C \<open>int\<close>; it never exceeds \<open>8 * len\<close> (lemma \<open>mask_bits_range\<close>), so it
  does not overflow for any mask shorter than \<open>2^28\<close> bytes.
\<close>

definition mask_bits :: "bytes \<Rightarrow> int" where
  "mask_bits addr = mask_bits_loop addr (0, False)"

text \<open>The mask as a bit string, most significant bit of the first byte first.\<close>

definition byte_bits :: "u8 \<Rightarrow> bool list" where
  "byte_bits a = map (bit a) (rev [0..<8])"

definition mask_bitlist :: "bytes \<Rightarrow> bool list" where
  "mask_bitlist m = concat (map byte_bits m)"

definition leading_ones :: "bool list \<Rightarrow> nat" where
  "leading_ones bs = length (takeWhile id bs)"

text \<open>A one-bit follows a zero-bit.\<close>

definition one_after_zero :: "bool list \<Rightarrow> bool" where
  "one_after_zero bs = (True \<in> set (dropWhile id bs))"

text \<open>The mask's one-bits form a single leading run (possibly empty).\<close>

definition contiguous :: "bool list \<Rightarrow> bool" where
  "contiguous bs = (\<not> one_after_zero bs)"

section \<open>f\_flower.c: the decoder\<close>

text \<open>
  What a C program does on a null pointer or outside an object is not a value of the
  program; the model stops there with a fault.  An attribute pointer is an
  \<open>rtattr option\<close> (\<open>None\<close>: the null pointer).  For an attribute that is read,
  \<open>rta_data\<close> is the memory from \<open>RTA_DATA\<close> on and \<open>RTA_PAYLOAD\<close> is computed from
  \<open>rta_len\<close>; a read that needs more bytes than \<open>rta_data\<close> has is a fault.
\<close>

datatype fault = Null_Deref | Out_Of_Bounds

definition then_do :: "fault + 'a \<Rightarrow> ('a \<Rightarrow> fault + 'b) \<Rightarrow> fault + 'b" where
  "then_do r k = (case r of Inl e \<Rightarrow> Inl e | Inr x \<Rightarrow> k x)"

definition rta_bytes :: "rtattr \<Rightarrow> nat \<Rightarrow> fault + bytes" where
  "rta_bytes rta k =
     (if k \<le> length (rta_data rta) then Inr (take k (rta_data rta)) else Inl Out_Of_Bounds)"

text \<open>
  Modelled from the spec: the inline getters of include/libnetlink.h (not among the
  sources), the get of a typed value from the front of an attribute's payload.
\<close>

definition rta_getattr_u8 :: "rtattr \<Rightarrow> fault + u8" where
  "rta_getattr_u8 rta = then_do (rta_bytes rta 1) (\<lambda>bs. Inr (hd bs))"

definition rta_getattr_u16 :: "bool \<Rightarrow> rtattr \<Rightarrow> fault + u16" where
  "rta_getattr_u16 le rta = then_do (rta_bytes rta 2) (\<lambda>bs. Inr (mem_u16 le bs))"

definition rta_getattr_be16 :: "bool \<Rightarrow> rtattr \<Rightarrow> fault + u16" where
  "rta_getattr_be16 le rta = then_do (rta_getattr_u16 le rta) (\<lambda>v. Inr (ntohs le v))"

definition rta_getattr_u32 :: "bool \<Rightarrow> rtattr \<Rightarrow> fault + u32" where
  "rta_getattr_u32 le rta = then_do (rta_bytes rta 4) (\<lambda>bs. Inr (mem_u32 le bs))"

definition char_of_byte :: "u8 \<Rightarrow> char" where
  "char_of_byte b = char_of (unat b)"

definition rta_getattr_str :: "rtattr \<Rightarrow> fault + string" where
  "rta_getattr_str rta =
     (if 0 \<in> set (rta_data rta)
      then Inr (map char_of_byte (takeWhile (\<lambda>b. b \<noteq> 0) (rta_data rta)))
      else Inl Out_Of_Bounds)"

text \<open>
  The printing functions take the text \<open>f\<close> written so far and return the text after
  the call.
\<close>

definition flower_print_eth_addr ::
  "env \<Rightarrow> string \<Rightarrow> string \<Rightarrow> rtattr option \<Rightarrow> rtattr option \<Rightarrow> fault + string" where
  "flower_print_eth_addr env f name addr_attr mask_attr =
     (case addr_attr of
        None \<Rightarrow> Inr f
      | Some addr \<Rightarrow>
          if RTA_PAYLOAD addr \<noteq> ETH_ALEN then Inr f
          else
            then_do (rta_bytes addr ETH_ALEN) (\<lambda>a.
              let f1 = f @ ''\<newline>  '' @ name @ '' '' @ ll_addr_n2a env a in
              (case mask_attr of
                 None \<Rightarrow> Inr f1
               | Some mattr \<Rightarrow>
                   if RTA_PAYLOAD mattr \<noteq> ETH_ALEN then Inr f1
                   else
                     then_do (rta_bytes mattr ETH_ALEN) (\<lambda>m.
                       let bits = mask_bits m in
                       if bits < 0 then Inr (f1 @ ''/'' @ ll_addr_n2a env m)
                       else if bits < int (ETH_ALEN * 8) then Inr (f1 @ ''/'' @ fmt_d bits)
                       else Inr f1))))"

text \<open>The result is the text and the value left in \<open>*p_eth_type\<close>.\<close>

definition flower_print_eth_type ::
  "env \<Rightarrow> string \<Rightarrow> u16 \<Rightarrow> rtattr option \<Rightarrow> fault + string \<times> u16" where
  "flower_print_eth_type env f p_eth_type eth_type_attr =
     (case eth_type_attr of
        None \<Rightarrow> Inr (f, p_eth_type)
      | Some a \<Rightarrow>
          then_do (rta_getattr_u16 (host_le env) a) (\<lambda>eth_type.
            let f1 = f @ ''\<newline>  eth_type '';
                f2 = (if eth_type = htons (host_le env) ETH_P_IP then f1 @ ''ipv4''
                      else if eth_type = htons (host_le env) ETH_P_IPV6 then f1 @ ''ipv6''
                      else f1 @ fmt_0x 4 (unat (ntohs (host_le env) eth_type)))
            in Inr (f2, eth_type)))"

definition flower_print_ip_proto ::
  "string \<Rightarrow> u8 \<Rightarrow> rtattr option \<Rightarrow> fault + string \<times> u8" where
  "flower_print_ip_proto f p_ip_proto ip_proto_attr =
     (case ip_proto_attr of
        None \<Rightarrow> Inr (f, p_ip_proto)
      | Some a \<Rightarrow>
          then_do (rta_getattr_u8 a) (\<lambda>ip_proto.
            let f1 = f @ ''\<newline>  ip_proto '';
                f2 = (if ip_proto = IPPROTO_TCP then f1 @ ''tcp''
                      else if ip_proto = IPPROTO_UDP then f1 @ ''udp''
                      else if ip_proto = IPPROTO_SCTP then f1 @ ''sctp''
                      else f1 @ fmt_0x 2 (unat ip_proto))
            in Inr (f2, ip_proto)))"

definition flower_print_ip_addr ::
  "env \<Rightarrow> string \<Rightarrow> string \<Rightarrow> u16 \<Rightarrow> rtattr option \<Rightarrow> rtattr option \<Rightarrow>
   rtattr option \<Rightarrow> rtattr option \<Rightarrow> fault + string" where
  "flower_print_ip_addr env f name eth_type addr4_attr mask4_attr addr6_attr mask6_attr =
     (case (if eth_type = htons (host_le env) ETH_P_IP
              then Some (AF_INET, addr4_attr, mask4_attr, 4)
            else if eth_type = htons (host_le env) ETH_P_IPV6
              then Some (AF_INET6, addr6_attr, mask6_attr, 16)
            else None) of
        None \<Rightarrow> Inr f
      | Some (fam, addr_attr, mask_attr, len) \<Rightarrow>
          (case addr_attr of
             None \<Rightarrow> Inr f
           | Some addr \<Rightarrow>
               if RTA_PAYLOAD addr \<noteq> len then Inr f
               else
                 let f1 = f @ ''\<newline>  '' @ name @ '' '' @ rt_addr_n2a_rta env fam addr in
                 (case mask_attr of
                    None \<Rightarrow> Inr f1
                  | Some mattr \<Rightarrow>
                      if RTA_PAYLOAD mattr \<noteq> len then Inr f1
                      else
                        then_do (rta_bytes mattr len) (\<lambda>m.
                          let bits = mask_bits m in
                          if bits < 0 then Inr (f1 @ ''/'' @ rt_addr_n2a_rta env fam mattr)
                          else if bits < int (len * 8) then Inr (f1 @ ''/'' @ fmt_d bits)
                          else Inr f1))))"

text \<open>
  \<open>flower_print_port\<close> passes \<open>attr\<close> to \<open>rta_getattr_be16\<close> without looking at it: a
  null \<open>attr\<close> is dereferenced.
\<close>

definition flower_print_port :: "env \<Rightarrow> string \<Rightarrow> string \<Rightarrow> rtattr option \<Rightarrow> fault + string" where
  "flower_print_port env f name attr =
     (case attr of
        None \<Rightarrow> Inl Null_Deref
      | Some a \<Rightarrow>
          then_do (rta_getattr_be16 (host_le env) a) (\<lambda>v.
            Inr (f @ ''\<newline>  '' @ name @ '' '' @ fmt_d (uint v))))"

text \<open>
  \<open>tb[flower_port_attr_type(ip_proto, is_src)]\<close>: the table has the indices
  \<open>0 .. TCA_FLOWER_MAX\<close>, so the index \<open>-1\<close> that \<open>flower_port_attr_type\<close> returns for
  a protocol it does not know lies outside the table.
\<close>

definition tb_port :: "(attr_type \<Rightarrow> rtattr option) \<Rightarrow> u8 \<Rightarrow> bool \<Rightarrow> fault + rtattr option" where
  "tb_port tb ip_proto is_src =
     (case flower_port_attr_type ip_proto is_src of
        None \<Rightarrow> Inl Out_Of_Bounds
      | Some t \<Rightarrow> Inr (tb t))"

text \<open>
  \<open>flower_print_opt(qu, f, opt, handle)\<close>.  \<open>opt\<close> is \<open>None\<close> for a null pointer and
  otherwise the table \<open>tb\<close> that \<open>parse_rtattr_nested\<close> fills from it, one pointer for
  each identifier.  The result is the text written to \<open>f\<close>; the function returns 0 on
  every path that returns.
\<close>

definition flower_print_opt ::
  "env \<Rightarrow> string \<Rightarrow> (attr_type \<Rightarrow> rtattr option) option \<Rightarrow> u32 \<Rightarrow> fault + string" where
  "flower_print_opt env f opt handle =
     (case opt of
        None \<Rightarrow> Inr f
      | Some tb \<Rightarrow>
          let le = host_le env;
              f0 = (if handle \<noteq> 0 then f @ ''handle 0x'' @ fmt_x (unat handle) @ '' '' else f)
          in
          then_do (case tb TCA_FLOWER_CLASSID of
                     None \<Rightarrow> Inr f0
                   | Some a \<Rightarrow> then_do (rta_getattr_u32 le a) (\<lambda>v.
                       Inr (f0 @ ''classid '' @ sprint_tc_classid env v @ '' ''))) (\<lambda>f1.
          then_do (case tb TCA_FLOWER_INDEV of
                     None \<Rightarrow> Inr f1
                   | Some a \<Rightarrow> then_do (rta_getattr_str a) (\<lambda>v.
                       Inr (f1 @ ''\<newline>  indev '' @ v))) (\<lambda>f2.
          then_do (case tb TCA_FLOWER_KEY_VLAN_ID of
                     None \<Rightarrow> Inr f2
                   | Some a \<Rightarrow> then_do (rta_getattr_u16 le a) (\<lambda>v.
                       Inr (f2 @ ''\<newline>  vlan_id '' @ fmt_d (uint v)))) (\<lambda>f3.
          then_do (case tb TCA_FLOWER_KEY_VLAN_PRIO of
                     None \<Rightarrow> Inr f3
                   | Some a \<Rightarrow> then_do (rta_getattr_u8 a) (\<lambda>v.
                       Inr (f3 @ ''\<newline>  vlan_prio '' @ fmt_d (uint v)))) (\<lambda>f4.
          then_do (flower_print_eth_addr env f4 ''dst_mac'' (tb TCA_FLOWER_KEY_ETH_DST)
                     (tb TCA_FLOWER_KEY_ETH_DST_MASK)) (\<lambda>f5.
          then_do (flower_print_eth_addr env f5 ''src_mac'' (tb TCA_FLOWER_KEY_ETH_SRC)
                     (tb TCA_FLOWER_KEY_ETH_SRC_MASK)) (\<lambda>f6.
          then_do (flower_print_eth_type env f6 0 (tb TCA_FLOWER_KEY_ETH_TYPE))
            (\<lambda>(f7, eth_type).
          then_do (flower_print_ip_proto f7 0xff (tb TCA_FLOWER_KEY_IP_PROTO))
            (\<lambda>(f8, ip_proto).
          then_do (flower_print_ip_addr env f8 ''dst_ip'' eth_type
                     (tb TCA_FLOWER_KEY_IPV4_DST) (tb TCA_FLOWER_KEY_IPV4_DST_MASK)
                     (tb TCA_FLOWER_KEY_IPV6_DST) (tb TCA_FLOWER_KEY_IPV6_DST_MASK)) (\<lambda>f9.
          then_do (flower_print_ip_addr env f9 ''src_ip'' eth_type
                     (tb TCA_FLOWER_KEY_IPV4_SRC) (tb TCA_FLOWER_KEY_IPV4_SRC_MASK)
                     (tb TCA_FLOWER_KEY_IPV6_SRC) (tb TCA_FLOWER_KEY_IPV6_SRC_MASK)) (\<lambda>f10.
          then_do (tb_port tb ip_proto False) (\<lambda>dst_attr.
          then_do (flower_print_port env f10 ''dst_port'' dst_attr) (\<lambda>f11.
          then_do (tb_port tb ip_proto True) (\<lambda>src_attr.
          then_do (flower_print_port env f11 ''src_port'' src_attr) (\<lambda>f12.
          then_do (case tb TCA_FLOWER_FLAGS of
                     None \<Rightarrow> Inr f12
                   | Some a \<Rightarrow> then_do (rta_getattr_u32 le a) (\<lambda>fl.
                       let g1 = (if fl AND TCA_CLS_FLAGS_SKIP_HW \<noteq> 0
                                 then f12 @ ''\<newline>  skip_hw'' else f12);
                           g2 = (if fl AND TCA_CLS_FLAGS_SKIP_SW \<noteq> 0
                                 then g1 @ ''\<newline>  skip_sw'' else g1)
                       in Inr g2)) (\<lambda>f13.
          (case tb TCA_FLOWER_ACT of
             None \<Rightarrow> Inr f13
           | Some a \<Rightarrow> Inr (f13 @ tc_print_action env a))))))))))))))))))"

section \<open>names.c: the C library functions it calls\<close>

text \<open>
  A C string in a buffer ends before the first NUL.  \<open>isspace\<close> is the C locale's.
\<close>

definition cstr :: "string \<Rightarrow> string" where
  "cstr buf = takeWhile (\<lambda>c. c \<noteq> CHR 0x00) buf"

definition isspace :: "char \<Rightarrow> bool" where
  "isspace c = (c \<in> set [CHR '' '', CHR 0x09, CHR 0x0A, CHR 0x0B, CHR 0x0C, CHR 0x0D])"

text \<open>
  \<open>fgets(buf, sz, fp)\<close>: the stream is the text not yet read.  \<open>None\<close> is the null
  return at the end of the file; otherwise the buffer holds the characters up to and
  including the next newline, at most \<open>sz - 1\<close> of them, and the stream moves on.
\<close>

definition fgets :: "nat \<Rightarrow> string \<Rightarrow> (string \<times> string) option" where
  "fgets sz fp =
     (if fp = [] then None
      else
        let l = takeWhile (\<lambda>c. c \<noteq> CHR 0x0A) fp;
            buf = take (sz - 1) (take (length l + 1) fp)
        in Some (buf, drop (length buf) fp))"

text \<open>
  The part of \<open>sscanf\<close> that names.c uses.  A format is a list of directives: \<open>Hex\<close> is
  \<open>%x\<close>, \<open>Dec\<close> is \<open>%d\<close>, \<open>Str\<close> is \<open>%s\<close>, \<open>WS\<close> is a white-space character of the
  format (it skips any white space of the input) and \<open>Lit c\<close> an ordinary character
  (the next input character must be \<open>c\<close>).  The result is the list of the values
  assigned, in order; its length is what \<open>sscanf\<close> returns when it returns a count
  (on an input that ends before the first conversion \<open>sscanf\<close> returns \<open>EOF\<close>, here the
  empty list: names.c only compares the count with 2 and 3).  A number that does not
  fit into 32 bits is reduced modulo \<open>2^32\<close>.
\<close>

datatype directive = Hex | Dec | Str | WS | Lit char

datatype scanned = Num u32 | Text string

definition digit_val :: "nat \<Rightarrow> char \<Rightarrow> nat option" where
  "digit_val b c =
     (let n = (of_char c :: nat);
          d = (if 48 \<le> n \<and> n \<le> 57 then Some (n - 48)
               else if 97 \<le> n \<and> n \<le> 102 then Some (n - 87)
               else if 65 \<le> n \<and> n \<le> 70 then Some (n - 55)
               else None)
      in case d of None \<Rightarrow> None | Some v \<Rightarrow> if v < b then Some v else None)"

definition scan_digits :: "nat \<Rightarrow> string \<Rightarrow> (nat \<times> string) option" where
  "scan_digits b s =
     (let ds = takeWhile (\<lambda>c. digit_val b c \<noteq> None) s in
      if ds = [] then None
      else Some (foldl (\<lambda>acc c. acc * b + the (digit_val b c)) 0 ds, drop (length ds) s))"

text \<open>
  A number in base \<open>b\<close> at the front of \<open>s\<close>: an optional sign, for base 16 an optional
  \<open>0x\<close> or \<open>0X\<close>, and at least one digit.
\<close>

definition scan_num :: "nat \<Rightarrow> string \<Rightarrow> (u32 \<times> string) option" where
  "scan_num b s =
     (let (neg, s1) = (case s of
                         c # r \<Rightarrow> if c = CHR ''-'' then (True, r)
                                  else if c = CHR ''+'' then (False, r)
                                  else (False, s)
                       | [] \<Rightarrow> (False, s));
          s2 = (if b = 16 \<and> (take 2 s1 = ''0x'' \<or> take 2 s1 = ''0X'') then drop 2 s1 else s1)
      in case scan_digits b s2 of
           None \<Rightarrow> None
         | Some (v, r) \<Rightarrow> Some (if neg then - of_nat v else of_nat v, r))"

fun sscanf :: "directive list \<Rightarrow> string \<Rightarrow> scanned list" where
  "sscanf [] s = []"
| "sscanf (WS # fmt) s = sscanf fmt (dropWhile isspace s)"
| "sscanf (Lit c # fmt) s =
     (case s of [] \<Rightarrow> [] | x # s' \<Rightarrow> if x = c then sscanf fmt s' else [])"
| "sscanf (Hex # fmt) s =
     (case scan_num 16 (dropWhile isspace s) of
        None \<Rightarrow> []
      | Some (v, s') \<Rightarrow> Num v # sscanf fmt s')"
| "sscanf (Dec # fmt) s =
     (case scan_num 10 (dropWhile isspace s) of
        None \<Rightarrow> []
      | Some (v, s') \<Rightarrow> Num v # sscanf fmt s')"
| "sscanf (Str # fmt) s =
     (let s1 = dropWhile isspace s;
          w = takeWhile (\<lambda>c. \<not> isspace c) s1
      in if w = [] then [] else Text w # sscanf fmt (drop (length w) s1))"



definition strcmp_eq :: "string \<Rightarrow> string \<Rightarrow> bool" where
  "strcmp_eq a b = (cstr a = cstr b)"

section \<open>names.c\<close>

definition MAX_ENTRIES :: nat where "MAX_ENTRIES = 256"
definition NAME_MAX_LEN :: nat where "NAME_MAX_LEN = 512"

text \<open>
  \<open>struct db_entry\<close> and \<open>struct db_names\<close> (names.h is not among the sources; the
  fields are those names.c uses).  The chain of a bucket, linked through \<open>next\<close>, is
  a list, its head first; \<open>hash\<close> is the array of the buckets; \<open>cached\<close> points to
  an entry or is null.  An id is the 32 bits of the C \<open>int\<close> (\<open>sint\<close> reads it).
\<close>

record db_entry =
  e_id :: u32
  e_name :: string

record db_names =
  db_size :: nat
  db_hash :: "db_entry list list"
  db_cached :: "db_entry option"

text \<open>The four formats of \<open>read_id_name\<close>, in the order of the source.\<close>

definition fmt_maj_min_nl :: "directive list" where
  "fmt_maj_min_nl = [Hex, Lit CHR '':'', Hex, WS, Str, WS]"

definition fmt_maj_min_hash :: "directive list" where
  "fmt_maj_min_hash = [Hex, Lit CHR '':'', Hex, WS, Str, WS, Lit CHR ''#'']"

definition fmt_0x_nl :: "directive list" where
  "fmt_0x_nl = [Lit CHR ''0'', Lit CHR ''x'', Hex, WS, Str, WS]"

definition fmt_0x_hash :: "directive list" where
  "fmt_0x_hash = [Lit CHR ''0'', Lit CHR ''x'', Hex, WS, Str, WS, Lit CHR ''#'']"

definition fmt_d_nl :: "directive list" where
  "fmt_d_nl = [Dec, WS, Str, WS]"

definition fmt_d_hash :: "directive list" where
  "fmt_d_hash = [Dec, WS, Str, WS, Lit CHR ''#'']"

text \<open>
  The body of the \<open>while\<close> loop of \<open>read_id_name\<close> for the buffer that \<open>fgets\<close>
  filled: \<open>Skip\<close> is \<^verbatim>\<open>continue\<close>, \<open>Bad p\<close> is \<^verbatim>\<open>return -1\<close> with \<open>p\<close> copied to
  \<open>name\<close>, \<open>Pair_Read i nm\<close> is \<^verbatim>\<open>return 1\<close> with \<open>*id = i\<close> and \<open>nm\<close> in \<open>name\<close>.
  \<open>(maj << 16) | min\<close> is taken on the 32 bits.
\<close>

datatype line_result = Skip | Bad string | Pair_Read u32 string

definition two_of :: "scanned list \<Rightarrow> (u32 \<times> string) option" where
  "two_of r = (case r of Num i # Text nm # _ \<Rightarrow> Some (i, nm) | _ \<Rightarrow> None)"

definition three_of :: "scanned list \<Rightarrow> (u32 \<times> u32 \<times> string) option" where
  "three_of r = (case r of Num a # Num b # Text nm # _ \<Rightarrow> Some (a, b, nm) | _ \<Rightarrow> None)"

definition read_line :: "string \<Rightarrow> line_result" where
  "read_line buf =
     (let p = dropWhile (\<lambda>c. c = CHR '' '' \<or> c = CHR 0x09) (cstr buf) in
      if p = [] \<or> hd p = CHR ''#'' \<or> hd p = CHR 0x0A then Skip
      else
        (case three_of (sscanf fmt_maj_min_nl p) of
           Some (maj, mn, nm) \<Rightarrow> Pair_Read (push_bit 16 maj OR mn) nm
         | None \<Rightarrow>
        (case three_of (sscanf fmt_maj_min_hash p) of
           Some (maj, mn, nm) \<Rightarrow> Pair_Read (push_bit 16 maj OR mn) nm
         | None \<Rightarrow>
        (case two_of (sscanf fmt_0x_nl p) of
           Some (i, nm) \<Rightarrow> Pair_Read i nm
         | None \<Rightarrow>
        (case two_of (sscanf fmt_0x_hash p) of
           Some (i, nm) \<Rightarrow> Pair_Read i nm
         | None \<Rightarrow>
        (case two_of (sscanf fmt_d_nl p) of
           Some (i, nm) \<Rightarrow> Pair_Read i nm
         | None \<Rightarrow>
        (case two_of (sscanf fmt_d_hash p) of
           Some (i, nm) \<Rightarrow> Pair_Read i nm
         | None \<Rightarrow> Bad p)))))))"

text \<open>
  \<open>read_id_name(fp, &id, name)\<close>: the result is what it returns (\<open>End_Of_File\<close> for 0,
  \<open>Corrupt p\<close> for \<open>-1\<close>, \<open>Entry_Read\<close> for 1) and the stream after the call.
\<close>

datatype read_result = End_Of_File | Corrupt string | Entry_Read u32 string

function read_id_name :: "string \<Rightarrow> read_result \<times> string" where
  "read_id_name fp =
     (case fgets NAME_MAX_LEN fp of
        None \<Rightarrow> (End_Of_File, fp)
      | Some (buf, fp') \<Rightarrow>
          (case read_line buf of
             Skip \<Rightarrow> read_id_name fp'
           | Bad p \<Rightarrow> (Corrupt p, fp')
           | Pair_Read i nm \<Rightarrow> (Entry_Read i nm, fp')))"
  by pat_completeness auto
termination
  by (relation "measure length")
     (auto simp: fgets_def NAME_MAX_LEN_def Let_def split: if_splits)

declare read_id_name.simps [simp del]

lemma read_id_name_shorter:
  "read_id_name fp = (r, fp') \<Longrightarrow> r \<noteq> End_Of_File \<Longrightarrow> length fp' < length fp"
proof (induction fp arbitrary: r fp' rule: read_id_name.induct)
  case (1 fp)
  show ?case
  proof (cases "fgets NAME_MAX_LEN fp")
    case None
    with "1.prems" show ?thesis by (simp add: read_id_name.simps [of fp])
  next
    case (Some bf)
    obtain buf fp1 where bf: "bf = (buf, fp1)" by (cases bf)
    have less: "length fp1 < length fp"
      using Some bf
      by (auto simp: fgets_def NAME_MAX_LEN_def Let_def split: if_splits)
    show ?thesis
    proof (cases "read_line buf")
      case Skip
      with Some bf "1.prems" have "read_id_name fp1 = (r, fp')"
        by (simp add: read_id_name.simps [of fp])
      from "1.IH" [OF Some bf [symmetric] Skip this "1.prems"(2)] less
      show ?thesis by simp
    next
      case (Bad p)
      with Some bf "1.prems" less show ?thesis
        by (simp add: read_id_name.simps [of fp])
    next
      case (Pair_Read i nm)
      with Some bf "1.prems" less show ?thesis
        by (simp add: read_id_name.simps [of fp])
    qed
  qed
qed

text \<open>\<open>id & (db->size - 1)\<close>, the index of the bucket of an id.\<close>

definition hash_slot :: "db_names \<Rightarrow> u32 \<Rightarrow> nat" where
  "hash_slot db i = unat (i AND (of_nat (db_size db) - 1))"

text \<open>The four statements that allocate an entry and put it at the head of its chain.\<close>

definition db_insert :: "db_names \<Rightarrow> u32 \<Rightarrow> string \<Rightarrow> db_names" where
  "db_insert db i nm =
     db\<lparr>db_hash := (db_hash db)[hash_slot db i :=
                       \<lparr>e_id = i, e_name = cstr nm\<rparr> # (db_hash db ! hash_slot db i)]\<rparr>"

text \<open>
  The loop \<^verbatim>\<open>while ((ret = read_id_name(fp, &id, &namebuf[0])))\<close> of \<open>db_names_alloc\<close>:
  \<open>Inl p\<close> is the return of \<open>-1\<close> with \<open>p\<close> in \<open>namebuf\<close>.
\<close>

function db_names_load :: "db_names \<Rightarrow> string \<Rightarrow> string + db_names" where
  "db_names_load db fp =
     (case read_id_name fp of
        (End_Of_File, fp') \<Rightarrow> Inr db
      | (Corrupt p, fp') \<Rightarrow> Inl p
      | (Entry_Read i nm, fp') \<Rightarrow>
          if sint i < 0 then db_names_load db fp'
          else db_names_load (db_insert db i nm) fp')"
  by pat_completeness auto
termination
  by (relation "measure (\<lambda>(db, fp). length fp)") (auto dest: read_id_name_shorter [OF sym])

declare db_names_load.simps [simp del]

text \<open>
  \<open>db_names_alloc(path)\<close>.  \<open>file\<close> is the content of the file at \<open>path\<close>, or \<open>None\<close>
  when \<open>fopen\<close> fails.  \<open>Inl\<close> is the return of the null pointer, with the line written
  to stderr.
\<close>

definition db_names_alloc :: "string \<Rightarrow> string option \<Rightarrow> string + db_names" where
  \<open>db_names_alloc path file =
     (case file of
        None \<Rightarrow> Inl (''Can't open file: '' @ path @ ''\<newline>'')
      | Some fp \<Rightarrow>
          (case db_names_load
                  \<lparr>db_size = MAX_ENTRIES, db_hash = replicate MAX_ENTRIES [], db_cached = None\<rparr>
                  fp of
             Inl namebuf \<Rightarrow>
               Inl (''Database '' @ path @ '' is corrupted at '' @ namebuf @ ''\<newline>'')
           | Inr db \<Rightarrow> Inr db))\<close>


text \<open>
  The loop \<^verbatim>\<open>for (i = 0; i < db->size; i++)\<close> of \<open>name_to_id\<close>: the first entry whose
  name compares equal, bucket by bucket, or none.
\<close>

function name_to_id_loop :: "db_names \<Rightarrow> nat \<Rightarrow> string \<Rightarrow> fault + db_entry option" where
  "name_to_id_loop db i name =
     (if i < db_size db then
        (if i < length (db_hash db) then
           (case find (\<lambda>entry. strcmp_eq (e_name entry) name) (db_hash db ! i) of
              Some entry \<Rightarrow> Inr (Some entry)
            | None \<Rightarrow> name_to_id_loop db (i + 1) name)
         else Inl Out_Of_Bounds)
      else Inr None)"
  by pat_completeness auto
termination
  by (relation "measure (\<lambda>(db, i, name). db_size db - i)") auto

declare name_to_id_loop.simps [simp del]

text \<open>
  \<open>name_to_id(db, &id, name)\<close>: the registry after the call (the cache may have
  moved) and \<open>Some\<close> of the id stored through \<open>id\<close> when it returns 0, \<open>None\<close> when it
  returns \<open>-1\<close>.
\<close>

definition name_to_id :: "db_names \<Rightarrow> string \<Rightarrow> fault + db_names \<times> u32 option" where
  "name_to_id db name =
     (if (case db_cached db of None \<Rightarrow> False | Some c \<Rightarrow> strcmp_eq (e_name c) name) then
        Inr (db, map_option e_id (db_cached db))
      else
        (case name_to_id_loop db 0 name of
           Inl flt \<Rightarrow> Inl flt
         | Inr None \<Rightarrow> Inr (db, None)
         | Inr (Some entry) \<Rightarrow> Inr (db\<lparr>db_cached := Some entry\<rparr>, Some (e_id entry))))"

text \<open>A sequence of \<open>name_to_id\<close> calls, one after the other, and the results.\<close>

fun name_to_id_calls ::
  "db_names \<Rightarrow> string list \<Rightarrow> fault + db_names \<times> u32 option list" where
  "name_to_id_calls db [] = Inr (db, [])"
| "name_to_id_calls db (name # names) =
     (case name_to_id db name of
        Inl flt \<Rightarrow> Inl flt
      | Inr (db', r) \<Rightarrow>
          (case name_to_id_calls db' names of
             Inl flt \<Rightarrow> Inl flt
           | Inr (db'', rs) \<Rightarrow> Inr (db'', r # rs)))"

text \<open>The entries of a registry, and what every loaded registry satisfies.\<close>

definition entries :: "db_names \<Rightarrow> db_entry list" where
  "entries db = concat (db_hash db)"

section \<open>A reference instance of the collaborators\<close>

text \<open>
  The theorems about the encoder and the decoder hold for every \<open>env\<close>.  To run the
  model on concrete rules, \<open>ref_env\<close> gives each collaborator a plain reading of its
  job on a little-endian host: keywords may be abbreviated to a prefix, numbers are
  digit strings in the given base, a MAC address is up to six hex bytes separated by
  colons, an IPv4 prefix is dotted decimal with an optional \<open>/len\<close>, an IPv6 prefix is
  eight hex groups with an optional \<open>/len\<close>, and the action parser takes all remaining
  tokens and appends one empty attribute.
\<close>

fun split_on :: "char \<Rightarrow> string \<Rightarrow> string list" where
  "split_on c [] = [[]]"
| "split_on c (x # xs) =
     (if x = c then [] # split_on c xs
      else (case split_on c xs of w # ws \<Rightarrow> (x # w) # ws | [] \<Rightarrow> [[x]]))"

definition parse_nat :: "nat \<Rightarrow> string \<Rightarrow> nat option" where
  "parse_nat b s = (case scan_digits b s of Some (v, []) \<Rightarrow> Some v | _ \<Rightarrow> None)"

definition parse_below :: "nat \<Rightarrow> nat \<Rightarrow> string \<Rightarrow> nat option" where
  "parse_below lim b s =
     (case (if b = 0 then (if take 2 s = ''0x'' then parse_nat 16 (drop 2 s) else parse_nat 10 s)
            else parse_nat b s) of
        None \<Rightarrow> None
      | Some v \<Rightarrow> if v < lim then Some v else None)"

definition ref_ll_addr_a2n :: "string \<Rightarrow> bytes option" where
  "ref_ll_addr_a2n s =
     (case those (map (parse_below 256 16) (split_on CHR '':'' s)) of
        None \<Rightarrow> None
      | Some vs \<Rightarrow>
          if length vs \<le> ETH_ALEN
          then Some (map of_nat vs @ replicate (ETH_ALEN - length vs) 0)
          else None)"

definition ref_ll_proto_a2n :: "string \<Rightarrow> u16 option" where
  "ref_ll_proto_a2n s =
     (if s = ''ipv4'' \<or> s = ''ip'' then Some (htons True ETH_P_IP)
      else if s = ''ipv6'' then Some (htons True ETH_P_IPV6)
      else map_option (\<lambda>v. htons True (of_nat v)) (parse_below 65536 16 s))"

definition ref_get_prefix :: "string \<Rightarrow> int \<Rightarrow> inet_prefix option" where
  "ref_get_prefix s fam =
     (let parts = split_on CHR ''/'' s;
          v4 = (fam = AF_INET);
          full = (if v4 then 32 else 128);
          plen = (case parts of [a] \<Rightarrow> Some full
                  | [a, l] \<Rightarrow> parse_below (full + 1) 10 l
                  | _ \<Rightarrow> None);
          addr = (if v4
                  then map_option (map of_nat)
                         (those (map (parse_below 256 10) (split_on CHR ''.'' (hd parts))))
                  else map_option (\<lambda>gs. concat (map (\<lambda>g. be16 (of_nat g)) gs))
                         (those (map (parse_below 65536 16) (split_on CHR '':'' (hd parts)))))
      in case (plen, addr) of
           (Some l, Some bs) \<Rightarrow>
             if length bs = (if v4 then 4 else 16)
             then Some \<lparr> family = fam, bytelen = length bs, bitlen = int l,
                         data = bs @ replicate (32 - length bs) 0 \<rparr>
             else None
         | _ \<Rightarrow> None)"

definition ref_get_tc_classid :: "string \<Rightarrow> u32 option" where
  "ref_get_tc_classid s =
     (case those (map (parse_below 65536 16) (split_on CHR '':'' s)) of
        Some [maj, mn] \<Rightarrow> Some (push_bit 16 (of_nat maj) OR of_nat mn)
      | _ \<Rightarrow> None)"

definition join_with :: "string \<Rightarrow> string list \<Rightarrow> string" where
  "join_with sep ws = (case ws of [] \<Rightarrow> [] | w # r \<Rightarrow> w @ concat (map (\<lambda>x. sep @ x) r))"

definition ref_env :: env where
  "ref_env =
     \<lparr> host_le = True,
       MAX_MSG = 16384,
       matches = (\<lambda>cmd pattern. prefix cmd pattern),
       get_u8 = (\<lambda>s b. map_option of_nat (parse_below 256 b s)),
       get_u16 = (\<lambda>s b. map_option of_nat (parse_below 65536 b s)),
       get_be16 = (\<lambda>s b. map_option (\<lambda>v. htons True (of_nat v)) (parse_below 65536 b s)),
       get_u32 = (\<lambda>s b. map_option of_nat (parse_below 4294967296 b s)),
       get_tc_classid = ref_get_tc_classid,
       ll_addr_a2n = ref_ll_addr_a2n,
       ll_proto_a2n = ref_ll_proto_a2n,
       get_prefix = ref_get_prefix,
       parse_action = (\<lambda>argv type n. Some (length argv, snd (addattr_l n 16384 type []))),
       ll_addr_n2a = (\<lambda>bs. join_with '':'' (map (\<lambda>b. fmt_0x 2 (unat b)) bs)),
       rt_addr_n2a_rta = (\<lambda>fam a.
         if fam = AF_INET
         then join_with ''.'' (map (\<lambda>b. fmt_d (uint b)) (take 4 (rta_data a)))
         else join_with '':'' (map (\<lambda>b. fmt_0x 2 (unat b)) (take 16 (rta_data a)))),
       sprint_tc_classid = (\<lambda>h. fmt_x (unat (drop_bit 16 h)) @ '':''
                                  @ fmt_x (unat (h AND 0xFFFF))),
       tc_print_action = (\<lambda>a. []) \<rparr>"

text \<open>An empty request: the netlink header and the \<open>tcmsg\<close> header, with the outer
  ethertype in \<open>tcm_info\<close> as the caller of the encoder leaves it.\<close>

definition empty_msg :: "u16 \<Rightarrow> nlmsg" where
  "empty_msg proto = \<lparr> nlmsg_len = 36, tcm_info = ucast proto, tcm_handle = 0, attrs = [] \<rparr>"

text \<open>The scan of \<open>__mask_bits\<close> over a bit string, the form in which it is analysed.\<close>

fun scan_bits :: "bool list \<Rightarrow> int \<times> bool \<Rightarrow> int + int \<times> bool" where
  "scan_bits [] st = Inr st"
| "scan_bits (b # bs) (bits, hole) =
     (if b then (if hole then Inl (- 1) else scan_bits bs (bits + 1, hole))
      else if bits \<noteq> 0 then scan_bits bs (bits, True)
      else Inl (- 1))"

section \<open>Predicates used in the statements\<close>

text \<open>
  The action parser only appends to the message: what was written stays, and the
  length field does not shrink.
\<close>

definition action_appends :: "env \<Rightarrow> bool" where
  "action_appends env =
     (\<forall>argv t n k n'. parse_action env argv t n = Some (k, n') \<longrightarrow>
        prefix (attrs n) (attrs n') \<and> nlmsg_len n \<le> nlmsg_len n')"

definition grows :: "nlmsg \<Rightarrow> nlmsg \<Rightarrow> bool" where
  "grows n n' = (prefix (attrs n) (attrs n') \<and> nlmsg_len n \<le> nlmsg_len n')"

text \<open>
  Every identifier that \<open>flower_port_attr_type\<close> can return, over all 256 protocol
  numbers and both directions, without repetitions.
\<close>

definition port_attr_ids :: "attr_type list" where
  "port_attr_ids =
     remdups (concat (map (\<lambda>p. concat (map (\<lambda>s. case flower_port_attr_type (of_nat p) s of
                                                        None \<Rightarrow> [] | Some t \<Rightarrow> [t])
                                              [False, True]))
                          [0..<256]))"

text \<open>
  The \<open>i\<close>-th 4-byte group of a byte string, and the group the spec's prefix-to-mask
  algorithm asks for at prefix length \<open>p\<close>.
\<close>

definition group4 :: "nat \<Rightarrow> bytes \<Rightarrow> bytes" where
  "group4 i m = take 4 (drop (4 * i) m)"

definition group_mask :: "nat \<Rightarrow> nat \<Rightarrow> bytes" where
  "group_mask p i =
     (if 32 * (i + 1) \<le> p then [0xff, 0xff, 0xff, 0xff]
      else if p \<le> 32 * i then [0, 0, 0, 0]
      else be32 (push_bit (32 - p mod 32) 0xFFFFFFFF))"

text \<open>The same group, counted from a pass of the loop that has \<open>bits\<close> left.\<close>

definition rest_mask :: "int \<Rightarrow> nat \<Rightarrow> bytes" where
  "rest_mask bits k =
     (if 32 * (int k + 1) \<le> bits then [0xff, 0xff, 0xff, 0xff]
      else if bits \<le> 32 * int k then [0, 0, 0, 0]
      else be32 (push_bit (nat (32 - (bits - 32 * int k))) 0xFFFFFFFF))"

text \<open>The buffers that successive calls of \<open>fgets\<close> yield on a file: its lines.\<close>

function file_lines :: "string \<Rightarrow> string list" where
  "file_lines fp =
     (case fgets NAME_MAX_LEN fp of
        None \<Rightarrow> []
      | Some (buf, fp') \<Rightarrow> buf # file_lines fp')"
  by pat_completeness auto
termination
  by (relation "measure length")
     (auto simp: fgets_def NAME_MAX_LEN_def Let_def split: if_splits)

declare file_lines.simps [simp del]

text \<open>The loop of \<open>db_names_alloc\<close> over the lines of the file.\<close>

fun load_lines :: "db_names \<Rightarrow> string list \<Rightarrow> string + db_names" where
  "load_lines db [] = Inr db"
| "load_lines db (buf # bufs) =
     (case read_line buf of
        Skip \<Rightarrow> load_lines db bufs
      | Bad p \<Rightarrow> Inl p
      | Pair_Read i nm \<Rightarrow> load_lines (if sint i < 0 then db else db_insert db i nm) bufs)"

text \<open>
  A line as \<open>read_id_name\<close> looks at it (the buffer as a C string, without leading
  blanks and tabs), whether it is skipped as blank or comment, and whether one of the
  \<open>sscanf\<close> calls accepts it.
\<close>

definition line_text :: "string \<Rightarrow> string" where
  "line_text buf = dropWhile (\<lambda>c. c = CHR '' '' \<or> c = CHR 0x09) (cstr buf)"

definition is_skipped :: "string \<Rightarrow> bool" where
  "is_skipped p = (p = [] \<or> hd p = CHR ''#'' \<or> hd p = CHR 0x0A)"

definition is_accepted :: "string \<Rightarrow> bool" where
  "is_accepted p =
     (three_of (sscanf fmt_maj_min_nl p) \<noteq> None \<or> three_of (sscanf fmt_maj_min_hash p) \<noteq> None
      \<or> two_of (sscanf fmt_0x_nl p) \<noteq> None \<or> two_of (sscanf fmt_0x_hash p) \<noteq> None
      \<or> two_of (sscanf fmt_d_nl p) \<noteq> None \<or> two_of (sscanf fmt_d_hash p) \<noteq> None)"

definition is_corrupt :: "string \<Rightarrow> bool" where
  "is_corrupt buf = (\<not> is_skipped (line_text buf) \<and> \<not> is_accepted (line_text buf))"


text \<open>
  What \<open>db_names_alloc\<close> establishes: the table has \<open>MAX_ENTRIES\<close> buckets, every
  entry lies in the bucket of its id, and no name contains a NUL.
\<close>

definition db_ok :: "db_names \<Rightarrow> bool" where
  "db_ok db =
     (db_size db = MAX_ENTRIES \<and> length (db_hash db) = MAX_ENTRIES
      \<and> (\<forall>k < length (db_hash db). \<forall>e \<in> set (db_hash db ! k).
            hash_slot db (e_id e) = k \<and> CHR 0x00 \<notin> set (e_name e)))"

text \<open>The cache is empty or points to an entry stored in the table.\<close>

definition cache_ok :: "db_names \<Rightarrow> bool" where
  "cache_ok db = (case db_cached db of None \<Rightarrow> True | Some c \<Rightarrow> c \<in> set (entries db))"

text \<open>
  What a lookup of \<open>name\<close> owes to the registry: it succeeds exactly when an entry with
  that name is stored, and an id it returns is the id of such an entry.
\<close>

definition lookup_ok :: "db_names \<Rightarrow> string \<Rightarrow> u32 option \<Rightarrow> bool" where
  "lookup_ok db name r =
     (((r \<noteq> None) = (\<exists>e \<in> set (entries db). e_name e = cstr name))
      \<and> (case r of
            None \<Rightarrow> True
          | Some i \<Rightarrow> (\<exists>e \<in> set (entries db). e_name e = cstr name \<and> e_id e = i)))"

text \<open>
  The entries that the lines of a file register, in the order of the lines: one for
  every line that \<open>read_id_name\<close> accepts with an id that is not negative, its name as
  \<open>strdup\<close> copies it.
\<close>

definition registered :: "string list \<Rightarrow> db_entry list" where
  "registered bufs =
     concat (map (\<lambda>buf. case read_line buf of
                          Pair_Read i nm \<Rightarrow>
                            if sint i < 0 then [] else [\<lparr>e_id = i, e_name = cstr nm\<rparr>]
                        | _ \<Rightarrow> []) bufs)"

section \<open>Properties of \<open>__mask_bits\<close>\<close>

lemma addr_bit_eq: "addr_bit a j = bit a j"
  by (simp add: addr_bit_def bit_iff_odd_drop_bit and_one_eq mod_2_eq_odd)

lemma mask_bits_byte_scan:
  "mask_bits_byte a n st = scan_bits (map (bit a) (rev [0..<n])) st"
proof (induction n arbitrary: st)
  case 0
  then show ?case by (cases st) simp
next
  case (Suc n)
  then show ?case by (cases st) (simp add: addr_bit_eq)
qed

lemma scan_bits_append:
  "scan_bits (xs @ ys) st =
     (case scan_bits xs st of Inl r \<Rightarrow> Inl r | Inr st' \<Rightarrow> scan_bits ys st')"
  by (induction xs st rule: scan_bits.induct) auto

lemma mask_bits_loop_scan:
  "mask_bits_loop m st =
     (case scan_bits (mask_bitlist m) st of Inl r \<Rightarrow> r | Inr st' \<Rightarrow> fst st')"
proof (induction m arbitrary: st)
  case Nil
  then show ?case by (cases st) (simp add: mask_bitlist_def)
next
  case (Cons a m)
  have "mask_bitlist (a # m) = byte_bits a @ mask_bitlist m"
    by (simp add: mask_bitlist_def)
  then show ?case
    using Cons
    by (simp add: scan_bits_append mask_bits_byte_scan byte_bits_def split: sum.splits)
qed

lemma scan_bits_hole:
  "k \<noteq> 0 \<Longrightarrow> scan_bits bs (k, True) = (if True \<in> set bs then Inl (- 1) else Inr (k, True))"
  by (induction bs) auto

lemma scan_bits_run:
  "0 < k \<Longrightarrow> scan_bits bs (k, False) =
     (if one_after_zero bs then Inl (- 1)
      else Inr (k + int (leading_ones bs), leading_ones bs < length bs))"
proof (induction bs arbitrary: k)
  case Nil
  then show ?case by (simp add: one_after_zero_def leading_ones_def)
next
  case (Cons b bs)
  show ?case
  proof (cases b)
    case True
    have "0 < k + 1" using Cons.prems by simp
    from Cons.IH [OF this] True show ?thesis
      by (simp add: one_after_zero_def leading_ones_def)
  next
    case False
    with Cons.prems show ?thesis
      by (simp add: scan_bits_hole one_after_zero_def leading_ones_def)
  qed
qed

lemma scan_bits_start:
  "scan_bits bs (0, False) =
     (if bs = [] then Inr (0, False)
      else if \<not> hd bs \<or> one_after_zero bs then Inl (- 1)
      else Inr (int (leading_ones bs), leading_ones bs < length bs))"
proof (cases bs)
  case Nil
  then show ?thesis by simp
next
  case (Cons b bs')
  show ?thesis
  proof (cases b)
    case True
    with Cons show ?thesis
      using scan_bits_run [of 1 bs']
      by (simp add: one_after_zero_def leading_ones_def)
  next
    case False
    with Cons show ?thesis by simp
  qed
qed

lemma mask_bitlist_Nil: "mask_bitlist m = [] \<longleftrightarrow> m = []"
  by (cases m) (simp_all add: mask_bitlist_def byte_bits_def)

lemma length_mask_bitlist: "length (mask_bitlist m) = 8 * length m"
  by (induction m) (simp_all add: mask_bitlist_def byte_bits_def)

text \<open>
  C2, as the code has it.  \<open>__mask_bits\<close> returns the sentinel \<open>-1\<close> exactly when the
  mask is not empty and either its first bit is zero (every all-zero mask of positive
  length is such a mask) or a one-bit follows a zero-bit; in every other case, that
  is for the empty mask and for a contiguous mask that starts with a one-bit, it
  returns the exact number of leading one-bits.
\<close>

theorem mask_bits_spec:
  "mask_bits m =
     (if m \<noteq> [] \<and> (\<not> hd (mask_bitlist m) \<or> one_after_zero (mask_bitlist m)) then - 1
      else int (leading_ones (mask_bitlist m)))"
proof (cases "m = []")
  case True
  then show ?thesis
    by (simp add: mask_bits_def mask_bitlist_def leading_ones_def)
next
  case False
  then have "mask_bitlist m \<noteq> []" by (simp add: mask_bitlist_Nil)
  with False show ?thesis
    by (simp add: mask_bits_def mask_bits_loop_scan scan_bits_start)
qed

theorem mask_bits_spec_witness:
  "mask_bits [0xff, 0xff, 0xfe, 0] = 23 \<and> hd (mask_bitlist [0xff, 0xff, 0xfe, 0])
   \<and> \<not> one_after_zero (mask_bitlist [0xff, 0xff, 0xfe, 0])
   \<and> mask_bits [0xff, 0x0f] = - 1 \<and> one_after_zero (mask_bitlist [0xff, 0x0f])"
proof -
  have a: "hd (mask_bitlist [0xff, 0xff, 0xfe, 0])" by code_simp
  have b: "\<not> one_after_zero (mask_bitlist [0xff, 0xff, 0xfe, 0])" by code_simp
  have c: "leading_ones (mask_bitlist [0xff, 0xff, 0xfe, 0]) = 23" by code_simp
  have d: "one_after_zero (mask_bitlist [0xff, 0x0f])" by code_simp
  show ?thesis
    using mask_bits_spec [of "[0xff, 0xff, 0xfe, 0]"] mask_bits_spec [of "[0xff, 0x0f]"] a b c d
    by simp
qed

text \<open>
  C2 as the claim states it fails at the all-zero IPv4 mask: the mask is contiguous
  with no leading one-bit and no one-bit follows a zero-bit, yet the result is the
  sentinel and not the bit count 0.
\<close>

theorem mask_bits_all_zero_counterexample:
  "contiguous (mask_bitlist [0, 0, 0, 0]) \<and> leading_ones (mask_bitlist [0, 0, 0, 0]) = 0
   \<and> \<not> one_after_zero (mask_bitlist [0, 0, 0, 0]) \<and> mask_bits [0, 0, 0, 0] = - 1"
  by code_simp


section \<open>Evaluating the model\<close>

lemma ref_env_sel [simp]:
  "host_le ref_env = True" "MAX_MSG ref_env = 16384"
  "matches ref_env = prefix"
  "get_be16 ref_env = (\<lambda>s b. map_option (\<lambda>v. htons True (of_nat v)) (parse_below 65536 b s))"
  "get_u16 ref_env = (\<lambda>s b. map_option of_nat (parse_below 65536 b s))"
  "get_u8 ref_env = (\<lambda>s b. map_option of_nat (parse_below 256 b s))"
  "ll_proto_a2n ref_env = ref_ll_proto_a2n"
  "ll_addr_a2n ref_env = ref_ll_addr_a2n"
  "get_prefix ref_env = ref_get_prefix"
  by (simp_all add: ref_env_def fun_eq_iff)

lemmas enc_eval =
  flower_parse_opt_def flower_parse_start_def flower_parse_step_def flower_parse_clause_def
  flower_parse_done_def flower_parse_port_def flower_port_attr_type_def flower_parse_ip_proto_def
  flower_parse_vlan_eth_type_def flower_parse_eth_addr_def flower_parse_ip_addr_def
  flower_prefix_mask_def keyword_def effective_eth_type_def append_diag_def set_rta_len_def
  addattr_l_def addattr8_def addattr16_def addattr32_def NLMSG_ALIGN_def RTA_ALIGN_def
  RTA_LENGTH_def TC_H_MIN_def empty_msg_def Let_def
  htons_def ntohs_def u16_mem_def u32_mem_def be16_def be32_def
  ETH_P_IP_def ETH_P_IPV6_def ETH_P_8021Q_def IPPROTO_TCP_def IPPROTO_UDP_def IPPROTO_SCTP_def
  TCA_CLS_FLAGS_SKIP_HW_def TCA_CLS_FLAGS_SKIP_SW_def
  parse_below_def parse_nat_def scan_digits_def digit_val_def

section \<open>The encoder: gating of clauses\<close>

lemma clause_gated:
  "gated env st a \<Longrightarrow>
   \<exists>ds. flower_parse_clause env (keyword env a) v st = Inl (Failed ds) \<and> ds \<noteq> []"
  unfolding gated_def Let_def
  by (auto simp: flower_parse_clause_def flower_parse_vlan_eth_type_def flower_parse_ip_proto_def
      flower_parse_ip_addr_def flower_parse_port_def flower_port_attr_type_def append_diag_def)

lemma step_gated:
  assumes "gated env st a"
  shows "\<exists>e. flower_parse_step env st a argv = Inl e \<and> diagnosed e"
proof (cases argv)
  case Nil
  with assms show ?thesis
    unfolding gated_def Let_def by (auto simp: flower_parse_step_def)
next
  case (Cons v argv')
  from clause_gated [OF assms, of v] obtain ds where
    "flower_parse_clause env (keyword env a) v st = Inl (Failed ds)" "ds \<noteq> []" by blast
  with Cons assms show ?thesis
    unfolding gated_def Let_def by (auto simp: flower_parse_step_def)
qed

lemma loop_gated:
  "(st, a) \<in> set (clause_states env st0 argv) \<Longrightarrow> gated env st a \<Longrightarrow>
   \<exists>e. flower_parse_loop env st0 argv = Inl e \<and> diagnosed e"
proof (induction env st0 argv rule: clause_states.induct)
  case (1 env st0)
  then show ?case by simp
next
  case (2 env st0 b argv)
  show ?case
  proof (cases "(st, a) = (st0, b)")
    case True
    with step_gated [OF "2.prems"(2), of argv] show ?thesis by auto
  next
    case False
    show ?thesis
    proof (cases "flower_parse_step env st0 b argv")
      case (Inl e)
      with "2.prems"(1) False show ?thesis by simp
    next
      case (Inr r)
      obtain st' k where r: "r = (st', k)" by (cases r)
      from "2.prems"(1) False Inr r
      have "(st, a) \<in> set (clause_states env st' (drop k argv))" by auto
      from "2.IH" [OF Inr r [symmetric] this "2.prems"(2)] Inr r
      show ?thesis by simp
    qed
  qed
qed

text \<open>
  C5.  Whatever the clause sequence \<open>argv\<close>: when a pass of the loop stands at a
  \<open>vlan_id\<close>, \<open>vlan_prio\<close> or \<open>vlan_ethtype\<close> clause and the outer ethertype is not
  802.1Q, or at an \<open>ip_proto\<close>, \<open>dst_ip\<close> or \<open>src_ip\<close> clause and the effective
  ethertype (the VLAN-inner one if set, else the outer one) is neither IPv4 nor IPv6,
  or at a \<open>dst_port\<close> or \<open>src_port\<close> clause and the transport protocol recorded so far
  is none of TCP, UDP, SCTP, the parse fails, with a diagnostic.
\<close>

theorem gating_rejects:
  assumes "flower_parse_start env handle n = Inr (tail, st0)"
    and "(st, a) \<in> set (clause_states env st0 argv)"
    and "gated env st a"
  shows "\<exists>e. flower_parse_opt env handle argv n = Inl e \<and> diagnosed e"
  using loop_gated [OF assms(2,3)] assms(1)
  by (auto simp: flower_parse_opt_def)

theorem gating_rejects_witness:
  "flower_parse_start ref_env None (empty_msg (htons True ETH_P_IP))
     = Inr (36, \<lparr> s_eth_type = htons True ETH_P_IP, s_vlan_ethtype = 0, s_ip_proto = 0xff,
                   s_flags = 0,
                   s_msg = \<lparr> nlmsg_len = 40, tcm_info = 8, tcm_handle = 0,
                     attrs = [(36, \<lparr>rta_len = 4, rta_type = TCA_OPTIONS, rta_data = []\<rparr>)] \<rparr> \<rparr>)
   \<and> (\<lparr> s_eth_type = htons True ETH_P_IP, s_vlan_ethtype = 0, s_ip_proto = 0xff, s_flags = 1,
         s_msg = \<lparr> nlmsg_len = 40, tcm_info = 8, tcm_handle = 0,
           attrs = [(36, \<lparr>rta_len = 4, rta_type = TCA_OPTIONS, rta_data = []\<rparr>)] \<rparr> \<rparr>,
        ''dst_port'')
       \<in> set (clause_states ref_env
                 \<lparr> s_eth_type = htons True ETH_P_IP, s_vlan_ethtype = 0, s_ip_proto = 0xff,
                   s_flags = 0,
                   s_msg = \<lparr> nlmsg_len = 40, tcm_info = 8, tcm_handle = 0,
                     attrs = [(36, \<lparr>rta_len = 4, rta_type = TCA_OPTIONS, rta_data = []\<rparr>)] \<rparr> \<rparr>
                 [''skip_hw'', ''dst_port'', ''80''])
   \<and> gated ref_env
         \<lparr> s_eth_type = htons True ETH_P_IP, s_vlan_ethtype = 0, s_ip_proto = 0xff, s_flags = 1,
           s_msg = \<lparr> nlmsg_len = 40, tcm_info = 8, tcm_handle = 0,
             attrs = [(36, \<lparr>rta_len = 4, rta_type = TCA_OPTIONS, rta_data = []\<rparr>)] \<rparr> \<rparr>
         ''dst_port''
   \<and> (\<exists>e. flower_parse_opt ref_env None [''skip_hw'', ''dst_port'', ''80'']
              (empty_msg (htons True ETH_P_IP)) = Inl e \<and> diagnosed e)"
proof -
  let ?st0 = "\<lparr> s_eth_type = htons True ETH_P_IP, s_vlan_ethtype = 0, s_ip_proto = 0xff,
                 s_flags = 0,
                 s_msg = \<lparr> nlmsg_len = 40, tcm_info = 8, tcm_handle = 0,
                   attrs = [(36, \<lparr>rta_len = 4, rta_type = TCA_OPTIONS, rta_data = []\<rparr>)] \<rparr> \<rparr>"
  have h1: "flower_parse_start ref_env None (empty_msg (htons True ETH_P_IP)) = Inr (36, ?st0)"
    by (simp add: enc_eval)
  have h2: "(?st0\<lparr>s_flags := 1\<rparr>, ''dst_port'')
              \<in> set (clause_states ref_env ?st0 [''skip_hw'', ''dst_port'', ''80''])"
    by (simp add: enc_eval)
  have h3: "gated ref_env (?st0\<lparr>s_flags := 1\<rparr>) ''dst_port''"
    by (simp add: gated_def enc_eval)
  from gating_rejects [OF h1 h2 h3] h1 h2 h3 show ?thesis by simp
qed

section \<open>The encoder: what follows the loop\<close>

lemma step_eth_type:
  "flower_parse_step env st a argv = Inr (st', k) \<Longrightarrow> s_eth_type st' = s_eth_type st"
  by (auto simp: flower_parse_step_def flower_parse_clause_def Let_def
      split: clause.splits if_splits option.splits list.splits sum.splits prod.splits)

lemma loop_eth_type:
  "flower_parse_loop env st argv = Inr st' \<Longrightarrow> s_eth_type st' = s_eth_type st"
proof (induction env st argv rule: flower_parse_loop.induct)
  case (1 env st)
  then show ?case by simp
next
  case (2 env st a argv)
  then show ?case
    by (auto split: sum.splits prod.splits dest: step_eth_type)
qed

lemma start_eth_type:
  "flower_parse_start env handle n = Inr (tail, st0) \<Longrightarrow>
   s_eth_type st0 = ucast (TC_H_MIN (tcm_info n))"
  by (auto simp: flower_parse_start_def Let_def split: option.splits)

lemma RTA_sizes:
  "RTA_LENGTH 0 = 4" "RTA_LENGTH 2 = 6" "RTA_LENGTH 4 = 8"
  "RTA_ALIGN 4 = 4" "RTA_ALIGN 6 = 8" "RTA_ALIGN 8 = 8"
  by (simp_all add: RTA_ALIGN_def RTA_LENGTH_def)

lemma length_u32_mem [simp]: "length (u32_mem le x) = 4"
  by (simp add: u32_mem_def be32_def)

lemma length_u16_mem [simp]: "length (u16_mem le x) = 2"
  by (simp add: u16_mem_def be16_def)

lemma NLMSG_ALIGN_idem [simp]: "NLMSG_ALIGN (NLMSG_ALIGN x + 8) = NLMSG_ALIGN x + 8"
  by (simp add: NLMSG_ALIGN_def)

lemma NLMSG_ALIGN_ge: "x \<le> NLMSG_ALIGN x"
  by (simp add: NLMSG_ALIGN_def)

lemma NLMSG_ALIGN_mono: "x \<le> y \<Longrightarrow> NLMSG_ALIGN x \<le> NLMSG_ALIGN y"
  by (simp add: NLMSG_ALIGN_def div_le_mono)

lemma addattr32_eq:
  "addattr32 le n mx t v =
     (if NLMSG_ALIGN (nlmsg_len n) + 8 > mx then (- 1, n)
      else (0, n\<lparr> attrs := attrs n @
                       [(NLMSG_ALIGN (nlmsg_len n),
                         \<lparr> rta_len = 8, rta_type = t, rta_data = u32_mem le v \<rparr>)],
                   nlmsg_len := NLMSG_ALIGN (nlmsg_len n) + 8 \<rparr>))"
  by (simp add: addattr32_def addattr_l_def RTA_sizes Let_def)

lemma addattr16_eq:
  "addattr16 le n mx t v =
     (if NLMSG_ALIGN (nlmsg_len n) + 8 > mx then (- 1, n)
      else (0, n\<lparr> attrs := attrs n @
                       [(NLMSG_ALIGN (nlmsg_len n),
                         \<lparr> rta_len = 6, rta_type = t, rta_data = u16_mem le v \<rparr>)],
                   nlmsg_len := NLMSG_ALIGN (nlmsg_len n) + 8 \<rparr>))"
  by (simp add: addattr16_def addattr_l_def RTA_sizes Let_def)

lemma parse_done_Inr:
  assumes "flower_parse_done env tail st = Inr n'"
  shows "n' = set_rta_len
           ((s_msg st)\<lparr> attrs := attrs (s_msg st) @
               [(NLMSG_ALIGN (nlmsg_len (s_msg st)),
                 \<lparr> rta_len = 8, rta_type = TCA_FLOWER_FLAGS,
                   rta_data = u32_mem (host_le env) (s_flags st) \<rparr>),
                (NLMSG_ALIGN (nlmsg_len (s_msg st)) + 8,
                 \<lparr> rta_len = 6, rta_type = TCA_FLOWER_KEY_ETH_TYPE,
                   rta_data = u16_mem (host_le env) (s_eth_type st) \<rparr>)],
              nlmsg_len := NLMSG_ALIGN (nlmsg_len (s_msg st)) + 16 \<rparr>)
           tail (NLMSG_ALIGN (nlmsg_len (s_msg st)) + 16 - tail)"
  using assms
  by (auto simp: flower_parse_done_def Let_def addattr32_eq addattr16_eq
      set_rta_len_def split: if_splits prod.splits)

lemma grows_refl [simp]: "grows n n"
  by (simp add: grows_def)

lemma grows_trans: "grows a b \<Longrightarrow> grows b c \<Longrightarrow> grows a c"
  by (auto simp: grows_def)

lemma addattr_l_grows [simp]: "grows n (snd (addattr_l n mx t d))"
  using NLMSG_ALIGN_ge [of "nlmsg_len n"]
  by (simp add: grows_def addattr_l_def Let_def)

lemma addattr_grows [simp]:
  "grows n (snd (addattr8 n mx t b))"
  "grows n (snd (addattr16 le n mx t w))"
  "grows n (snd (addattr32 le n mx t x))"
  "grows n (snd (addattrstrz n mx t str))"
  by (simp_all add: addattr8_def addattr16_def addattr32_def addattrstrz_def)

lemma addattr_l_grows2 [simp]:
  "grows n (snd (addattr_l (snd (addattr_l n mx t d)) mx' t' d'))"
  by (rule grows_trans [OF addattr_l_grows addattr_l_grows])

lemma clause_grows:
  "flower_parse_clause env kw v st = Inr st' \<Longrightarrow> grows (s_msg st) (s_msg st')"
  by (cases kw)
     (auto simp: flower_parse_clause_def Let_def flower_parse_vlan_eth_type_def
        flower_parse_eth_addr_def flower_parse_ip_proto_def flower_parse_ip_addr_def
        flower_parse_port_def
      split: if_splits option.splits sum.splits prod.splits)

lemma step_grows:
  "action_appends env \<Longrightarrow> flower_parse_step env st a argv = Inr (st', k) \<Longrightarrow>
   grows (s_msg st) (s_msg st')"
  by (cases "keyword env a")
     (auto simp: flower_parse_step_def action_appends_def grows_def [of "s_msg st"]
       dest!: clause_grows
       split: if_splits option.splits sum.splits prod.splits list.splits)

lemma loop_grows:
  "action_appends env \<Longrightarrow> flower_parse_loop env st argv = Inr st' \<Longrightarrow>
   grows (s_msg st) (s_msg st')"
proof (induction env st argv rule: flower_parse_loop.induct)
  case (1 env st)
  then show ?case by simp
next
  case (2 env st a argv)
  from "2.prems"(2) obtain st1 k where
    step: "flower_parse_step env st a argv = Inr (st1, k)" and
    rest: "flower_parse_loop env st1 (drop k argv) = Inr st'"
    by (auto split: sum.splits prod.splits)
  from "2.IH" [OF step refl "2.prems"(1) rest] step_grows [OF "2.prems"(1) step]
  show ?case by (blast intro: grows_trans)
qed

lemma set_rta_len_mem:
  "(tail, a) \<in> set (attrs m) \<Longrightarrow>
   (tail, a\<lparr>rta_len := v\<rparr>) \<in> set (attrs (set_rta_len m tail v))"
  by (force simp: set_rta_len_def)

lemma action_appends_ref_env: "action_appends ref_env"
proof -
  have "prefix (attrs n) (attrs (snd (addattr_l n mx t d)))
          \<and> nlmsg_len n \<le> nlmsg_len (snd (addattr_l n mx t d))" for n mx t d
    using addattr_l_grows [of n mx t d] by (simp add: grows_def)
  then show ?thesis
    by (auto simp: action_appends_def ref_env_def)
qed

text \<open>
  C9, as the code has it.  On every successful encode, whatever the clauses (none
  included), the statements after the loop append the flags word and then the
  ethertype attribute, which carries the outer ethertype taken from \<open>tcm_info\<close> (the
  loop never changes it, and a \<open>vlan_ethtype\<close> clause has no part in it), and set the
  length field of the attribute header at \<open>tail\<close> to the distance from \<open>tail\<close> to the
  end of the message.  When the action parser only appends, that header is the
  \<open>TCA_OPTIONS\<close> container opened before the loop.
\<close>

theorem parse_done_emits:
  assumes "flower_parse_opt env handle argv n = Inr n'"
  shows "\<exists>tail st0 st.
           flower_parse_start env handle n = Inr (tail, st0)
         \<and> flower_parse_loop env st0 argv = Inr st
         \<and> s_eth_type st = ucast (TC_H_MIN (tcm_info n))
         \<and> n' = set_rta_len
             ((s_msg st)\<lparr> attrs := attrs (s_msg st) @
                 [(NLMSG_ALIGN (nlmsg_len (s_msg st)),
                   \<lparr> rta_len = 8, rta_type = TCA_FLOWER_FLAGS,
                     rta_data = u32_mem (host_le env) (s_flags st) \<rparr>),
                  (NLMSG_ALIGN (nlmsg_len (s_msg st)) + 8,
                   \<lparr> rta_len = 6, rta_type = TCA_FLOWER_KEY_ETH_TYPE,
                     rta_data = u16_mem (host_le env) (s_eth_type st) \<rparr>)],
                nlmsg_len := NLMSG_ALIGN (nlmsg_len (s_msg st)) + 16 \<rparr>)
             tail (NLMSG_ALIGN (nlmsg_len (s_msg st)) + 16 - tail)
         \<and> (action_appends env \<longrightarrow>
              (tail, \<lparr> rta_len = nlmsg_len n' - tail, rta_type = TCA_OPTIONS, rta_data = [] \<rparr>)
                \<in> set (attrs n'))"
proof -
  from assms obtain tail st0 st where
    start: "flower_parse_start env handle n = Inr (tail, st0)" and
    loop: "flower_parse_loop env st0 argv = Inr st" and
    fin: "flower_parse_done env tail st = Inr n'"
    by (auto simp: flower_parse_opt_def split: sum.splits prod.splits)
  let ?m = "s_msg st"
  let ?off = "NLMSG_ALIGN (nlmsg_len ?m)"
  have eth: "s_eth_type st = ucast (TC_H_MIN (tcm_info n))"
    using loop_eth_type [OF loop] start_eth_type [OF start] by simp
  note n' = parse_done_Inr [OF fin]
  have room: "?off + 16 \<le> MAX_MSG env"
    using fin
    by (auto simp: flower_parse_done_def Let_def addattr32_eq addattr16_eq
        split: if_splits prod.splits)
  have len: "nlmsg_len n' = ?off + 16"
    by (subst n') (simp add: set_rta_len_def)
  have cont: "(tail, \<lparr> rta_len = nlmsg_len n' - tail, rta_type = TCA_OPTIONS, rta_data = [] \<rparr>)
                \<in> set (attrs n')" if app: "action_appends env"
  proof -
    have "\<exists>n0. tail = NLMSG_ALIGN (nlmsg_len n0)
        \<and> s_msg st0 = snd (addattr_l n0 (MAX_MSG env) TCA_OPTIONS [])"
    proof (cases handle)
      case None
      with start show ?thesis
        by (intro exI [of _ n]) (auto simp: flower_parse_start_def Let_def)
    next
      case (Some h)
      with start obtain v where "get_u32 env h 0 = Some v"
        by (cases "get_u32 env h 0") (auto simp: flower_parse_start_def)
      with Some start show ?thesis
        by (intro exI [of _ "n\<lparr>tcm_handle := v\<rparr>"]) (auto simp: flower_parse_start_def Let_def)
    qed
    then obtain n0 where
      tail: "tail = NLMSG_ALIGN (nlmsg_len n0)" and
      m0: "s_msg st0 = snd (addattr_l n0 (MAX_MSG env) TCA_OPTIONS [])"
      by blast
    have g: "grows (s_msg st0) ?m" by (rule loop_grows [OF app loop])
    have "nlmsg_len n0 \<le> nlmsg_len (s_msg st0)"
      using addattr_l_grows [of n0 "MAX_MSG env" TCA_OPTIONS "[]"] m0 by (simp add: grows_def)
    with g have "nlmsg_len n0 \<le> nlmsg_len ?m" by (simp add: grows_def)
    from NLMSG_ALIGN_mono [OF this] room tail have fits: "tail + 4 \<le> MAX_MSG env" by simp
    have "(tail, \<lparr> rta_len = 4, rta_type = TCA_OPTIONS, rta_data = [] \<rparr>) \<in> set (attrs (s_msg st0))"
      using fits tail m0 by (simp add: addattr_l_def Let_def RTA_sizes)
    with g have "(tail, \<lparr> rta_len = 4, rta_type = TCA_OPTIONS, rta_data = [] \<rparr>) \<in> set (attrs ?m)"
      by (auto simp: grows_def dest: set_mono_prefix)
    then have "(tail, \<lparr> rta_len = 4, rta_type = TCA_OPTIONS, rta_data = [] \<rparr>
                        \<lparr>rta_len := ?off + 16 - tail\<rparr>) \<in> set (attrs n')"
      by (subst n') (rule set_rta_len_mem, simp)
    then show ?thesis by (simp add: len)
  qed
  from start loop eth n' cont show ?thesis by blast
qed

text \<open>The zero-clause rule under outer ethertype IPv4, and what the theorem says of it.\<close>

theorem parse_done_emits_witness:
  "flower_parse_opt ref_env None [] (empty_msg (htons True ETH_P_IP))
     = Inr \<lparr> nlmsg_len = 56, tcm_info = 8, tcm_handle = 0,
             attrs =
               [(36, \<lparr>rta_len = 20, rta_type = TCA_OPTIONS, rta_data = []\<rparr>),
                (40, \<lparr>rta_len = 8, rta_type = TCA_FLOWER_FLAGS, rta_data = [0, 0, 0, 0]\<rparr>),
                (48, \<lparr>rta_len = 6, rta_type = TCA_FLOWER_KEY_ETH_TYPE, rta_data = [8, 0]\<rparr>)] \<rparr>
   \<and> action_appends ref_env
   \<and> (\<exists>tail. (tail, \<lparr> rta_len = 56 - tail, rta_type = TCA_OPTIONS, rta_data = [] \<rparr>)
        \<in> set [(36, \<lparr>rta_len = 20, rta_type = TCA_OPTIONS, rta_data = []\<rparr>),
                (40, \<lparr>rta_len = 8, rta_type = TCA_FLOWER_FLAGS, rta_data = [0, 0, 0, 0]\<rparr>),
                (48, \<lparr>rta_len = 6, rta_type = TCA_FLOWER_KEY_ETH_TYPE, rta_data = [8, 0]\<rparr>)])"
proof -
  let ?n' = "\<lparr> nlmsg_len = 56, tcm_info = 8, tcm_handle = 0,
             attrs =
               [(36, \<lparr>rta_len = 20, rta_type = TCA_OPTIONS, rta_data = []\<rparr>),
                (40, \<lparr>rta_len = 8, rta_type = TCA_FLOWER_FLAGS, rta_data = [0, 0, 0, 0]\<rparr>),
                (48, \<lparr>rta_len = 6, rta_type = TCA_FLOWER_KEY_ETH_TYPE,
                      rta_data = [8, 0 :: u8]\<rparr>)] \<rparr>"
  have run: "flower_parse_opt ref_env None [] (empty_msg (htons True ETH_P_IP)) = Inr ?n'"
    by (simp add: enc_eval)
  from parse_done_emits [OF run] action_appends_ref_env
  obtain tail where
    "(tail, \<lparr> rta_len = nlmsg_len ?n' - tail, rta_type = TCA_OPTIONS, rta_data = [] \<rparr>)
       \<in> set (attrs ?n')"
    by blast
  then have "\<exists>tail. (tail, \<lparr> rta_len = 56 - tail, rta_type = TCA_OPTIONS, rta_data = [] \<rparr>)
       \<in> set (attrs ?n')"
    by (intro exI [of _ tail]) simp
  with run action_appends_ref_env show ?thesis by simp
qed

text \<open>
  C9 as the claim states it fails where the effective ethertype is not the outer one:
  after \<open>vlan_ethtype ipv4\<close> under outer ethertype 802.1Q the effective ethertype is
  IPv4 (bytes 08 00), and the ethertype attribute emitted carries 802.1Q (bytes 81 00).
\<close>

theorem eth_type_attr_counterexample:
  "(case flower_parse_start ref_env None (empty_msg (htons True ETH_P_8021Q)) of
      Inl e \<Rightarrow> False
    | Inr (tail, st0) \<Rightarrow>
        (case flower_parse_loop ref_env st0 [''vlan_ethtype'', ''ipv4''] of
           Inl e \<Rightarrow> False
         | Inr st \<Rightarrow> u16_mem True (effective_eth_type st) = [0x08, 0x00]))
   \<and> (case flower_parse_opt ref_env None [''vlan_ethtype'', ''ipv4'']
              (empty_msg (htons True ETH_P_8021Q)) of
        Inl e \<Rightarrow> False
      | Inr n' \<Rightarrow>
          map (\<lambda>(off, a). rta_data a)
            (filter (\<lambda>(off, a). rta_type a = TCA_FLOWER_KEY_ETH_TYPE) (attrs n'))
          = [[0x81, 0x00]])"
  by (simp add: enc_eval ref_ll_proto_a2n_def)


section \<open>The encoder: the identifier of a port attribute\<close>

lemma set_port_attr_ids:
  "set port_attr_ids =
     {TCA_FLOWER_KEY_TCP_SRC, TCA_FLOWER_KEY_TCP_DST, TCA_FLOWER_KEY_UDP_SRC,
      TCA_FLOWER_KEY_UDP_DST, TCA_FLOWER_KEY_SCTP_SRC, TCA_FLOWER_KEY_SCTP_DST}"
    (is "?L = ?R")
proof
  show "?L \<subseteq> ?R"
    by (auto simp: port_attr_ids_def flower_port_attr_type_def split: if_splits option.splits)
  have mem: "t \<in> set port_attr_ids" if h: "flower_port_attr_type w s = Some t" for w s t
  proof -
    have "unat w < 256" using unsigned_less [of w, where ?'a = nat] by simp
    moreover have "flower_port_attr_type (of_nat (unat w)) s = Some t" using h by simp
    ultimately show ?thesis
      by (cases s) (force simp: port_attr_ids_def)+
  qed
  have "flower_port_attr_type 6 True = Some TCA_FLOWER_KEY_TCP_SRC"
    "flower_port_attr_type 6 False = Some TCA_FLOWER_KEY_TCP_DST"
    "flower_port_attr_type 17 True = Some TCA_FLOWER_KEY_UDP_SRC"
    "flower_port_attr_type 17 False = Some TCA_FLOWER_KEY_UDP_DST"
    "flower_port_attr_type 132 True = Some TCA_FLOWER_KEY_SCTP_SRC"
    "flower_port_attr_type 132 False = Some TCA_FLOWER_KEY_SCTP_DST"
    by (simp_all add: flower_port_attr_type_def IPPROTO_TCP_def IPPROTO_UDP_def IPPROTO_SCTP_def)
  then show "?R \<subseteq> ?L"
    by (auto dest: mem)
qed

text \<open>
  C3 as the claim states it fails on the size of the table: over all protocol numbers
  and both directions \<open>flower_port_attr_type\<close> returns six identifiers, not eight.
\<close>

theorem port_attr_ids_counterexample: "length port_attr_ids = 6 \<and> length port_attr_ids \<noteq> 8"
proof -
  have "length port_attr_ids = card (set port_attr_ids)"
    by (simp add: port_attr_ids_def length_remdups_card_conv)
  then show ?thesis by (simp add: set_port_attr_ids)
qed


text \<open>
  C3, as the code has it.  The identifier of a port attribute is selected by the
  transport protocol and the direction over three protocols and two directions: six
  distinct identifiers, the TCP, UDP and SCTP destination and source ports.  Any other
  protocol is a hard error of the encoder: \<open>flower_port_attr_type\<close> returns \<open>-1\<close> and
  \<open>flower_parse_port\<close> fails with its diagnostic.  For a protocol it knows,
  \<open>flower_parse_port\<close> emits the port under exactly the identifier that
  \<open>flower_port_attr_type\<close> selects for the protocol and the direction, and so do the
  \<open>dst_port\<close> clause (direction destination) and the \<open>src_port\<close> clause (direction
  source) of the loop, with the transport protocol recorded so far; and whatever
  \<open>flower_parse_port\<close> emits is emitted under that identifier.  A \<open>dst_port\<close> or
  \<open>src_port\<close> clause with no \<open>ip_proto\<close> clause before it fails.  The clauses
  \<open>ip_proto tcp\<close>, \<open>dst_port 80\<close> under outer ethertype IPv4 emit the TCP destination
  port identifier with the value 80 in network byte order (bytes 00 50).
\<close>

theorem port_attr_selection:
  "flower_port_attr_type IPPROTO_TCP False = Some TCA_FLOWER_KEY_TCP_DST
   \<and> flower_port_attr_type IPPROTO_TCP True = Some TCA_FLOWER_KEY_TCP_SRC
   \<and> flower_port_attr_type IPPROTO_UDP False = Some TCA_FLOWER_KEY_UDP_DST
   \<and> flower_port_attr_type IPPROTO_UDP True = Some TCA_FLOWER_KEY_UDP_SRC
   \<and> flower_port_attr_type IPPROTO_SCTP False = Some TCA_FLOWER_KEY_SCTP_DST
   \<and> flower_port_attr_type IPPROTO_SCTP True = Some TCA_FLOWER_KEY_SCTP_SRC
   \<and> distinct [TCA_FLOWER_KEY_TCP_DST, TCA_FLOWER_KEY_TCP_SRC, TCA_FLOWER_KEY_UDP_DST,
                TCA_FLOWER_KEY_UDP_SRC, TCA_FLOWER_KEY_SCTP_DST, TCA_FLOWER_KEY_SCTP_SRC]
   \<and> (p \<noteq> IPPROTO_TCP \<and> p \<noteq> IPPROTO_UDP \<and> p \<noteq> IPPROTO_SCTP \<longrightarrow>
        flower_port_attr_type p s = None
        \<and> flower_parse_port env str p s n
            = Inl (Failed [Msg ''Illegal \"ip_proto\" for port\<newline>'']))
   \<and> (flower_port_attr_type q d = Some t \<and> get_be16 env str 10 = Some port \<longrightarrow>
        flower_parse_port env str q d n
          = Inr (snd (addattr16 (host_le env) n (MAX_MSG env) t port)))
   \<and> (flower_parse_port env str q d n = Inr n' \<longrightarrow>
        (\<exists>t' port'. flower_port_attr_type q d = Some t' \<and> get_be16 env str 10 = Some port'
           \<and> n' = snd (addattr16 (host_le env) n (MAX_MSG env) t' port')))
   \<and> ((kw = K_dst_port \<or> kw = K_src_port)
        \<and> flower_port_attr_type (s_ip_proto st) (kw = K_src_port) = Some t
        \<and> get_be16 env str 10 = Some port \<longrightarrow>
        flower_parse_clause env kw str st
          = Inr (st\<lparr>s_msg := snd (addattr16 (host_le env) (s_msg st) (MAX_MSG env) t port)\<rparr>))
   \<and> ((keyword env a = K_dst_port \<or> keyword env a = K_src_port)
        \<and> flower_port_attr_type (s_ip_proto st) (keyword env a = K_src_port) = Some t
        \<and> get_be16 env str 10 = Some port \<longrightarrow>
        flower_parse_step env st a (str # argv)
          = Inr (st\<lparr>s_msg := snd (addattr16 (host_le env) (s_msg st) (MAX_MSG env) t port)\<rparr>, 1))
   \<and> (keyword env a = K_dst_port \<or> keyword env a = K_src_port \<longrightarrow>
        (\<exists>e. flower_parse_opt env None (a # argv) n = Inl e \<and> diagnosed e))
   \<and> flower_parse_opt ref_env None [''ip_proto'', ''tcp'', ''dst_port'', ''80'']
        (empty_msg (htons True ETH_P_IP))
      = Inr \<lparr> nlmsg_len = 72, tcm_info = 8, tcm_handle = 0,
          attrs =
            [(36, \<lparr>rta_len = 36, rta_type = TCA_OPTIONS, rta_data = []\<rparr>),
             (40, \<lparr>rta_len = 5, rta_type = TCA_FLOWER_KEY_IP_PROTO, rta_data = [6]\<rparr>),
             (48, \<lparr>rta_len = 6, rta_type = TCA_FLOWER_KEY_TCP_DST, rta_data = [0, 80]\<rparr>),
             (56, \<lparr>rta_len = 8, rta_type = TCA_FLOWER_FLAGS, rta_data = [0, 0, 0, 0]\<rparr>),
             (64, \<lparr>rta_len = 6, rta_type = TCA_FLOWER_KEY_ETH_TYPE, rta_data = [8, 0]\<rparr>)] \<rparr>
   \<and> flower_parse_opt ref_env None [''dst_port'', ''80''] (empty_msg (htons True ETH_P_IP))
      = Inl (Failed [Msg ''Illegal \"ip_proto\" for port\<newline>'',
                     Msg ''Illegal \"dst_port\"\<newline>''])"
proof -
  have sel: "flower_port_attr_type IPPROTO_TCP False = Some TCA_FLOWER_KEY_TCP_DST"
    "flower_port_attr_type IPPROTO_TCP True = Some TCA_FLOWER_KEY_TCP_SRC"
    "flower_port_attr_type IPPROTO_UDP False = Some TCA_FLOWER_KEY_UDP_DST"
    "flower_port_attr_type IPPROTO_UDP True = Some TCA_FLOWER_KEY_UDP_SRC"
    "flower_port_attr_type IPPROTO_SCTP False = Some TCA_FLOWER_KEY_SCTP_DST"
    "flower_port_attr_type IPPROTO_SCTP True = Some TCA_FLOWER_KEY_SCTP_SRC"
    by (simp_all add: flower_port_attr_type_def IPPROTO_TCP_def IPPROTO_UDP_def IPPROTO_SCTP_def)
  have hard: "flower_port_attr_type p s = None
        \<and> flower_parse_port env str p s n
            = Inl (Failed [Msg ''Illegal \"ip_proto\" for port\<newline>''])"
    if "p \<noteq> IPPROTO_TCP \<and> p \<noteq> IPPROTO_UDP \<and> p \<noteq> IPPROTO_SCTP"
    using that by (simp add: flower_port_attr_type_def flower_parse_port_def)
  have emit: "flower_parse_port env str q d n
          = Inr (snd (addattr16 (host_le env) n (MAX_MSG env) t port))"
    if "flower_port_attr_type q d = Some t \<and> get_be16 env str 10 = Some port"
    using that by (simp add: flower_parse_port_def)
  have only: "\<exists>t' port'. flower_port_attr_type q d = Some t' \<and> get_be16 env str 10 = Some port'
           \<and> n' = snd (addattr16 (host_le env) n (MAX_MSG env) t' port')"
    if "flower_parse_port env str q d n = Inr n'"
    using that by (auto simp: flower_parse_port_def split: option.splits)
  have clause: "flower_parse_clause env kw str st
          = Inr (st\<lparr>s_msg := snd (addattr16 (host_le env) (s_msg st) (MAX_MSG env) t port)\<rparr>)"
    if h: "(kw = K_dst_port \<or> kw = K_src_port)
        \<and> flower_port_attr_type (s_ip_proto st) (kw = K_src_port) = Some t
        \<and> get_be16 env str 10 = Some port"
  proof (cases "kw = K_dst_port")
    case True
    with h show ?thesis
      by (simp add: flower_parse_clause_def flower_parse_port_def Let_def)
  next
    case False
    with h have "kw = K_src_port" by simp
    with h show ?thesis
      by (simp add: flower_parse_clause_def flower_parse_port_def Let_def)
  qed
  have step: "flower_parse_step env st a (str # argv)
          = Inr (st\<lparr>s_msg := snd (addattr16 (host_le env) (s_msg st) (MAX_MSG env) t port)\<rparr>, 1)"
    if h: "(keyword env a = K_dst_port \<or> keyword env a = K_src_port)
        \<and> flower_port_attr_type (s_ip_proto st) (keyword env a = K_src_port) = Some t
        \<and> get_be16 env str 10 = Some port"
  proof (cases "keyword env a = K_dst_port")
    case True
    with h show ?thesis
      by (simp add: flower_parse_step_def flower_parse_clause_def flower_parse_port_def Let_def)
  next
    case False
    with h have "keyword env a = K_src_port" by simp
    with h show ?thesis
      by (simp add: flower_parse_step_def flower_parse_clause_def flower_parse_port_def Let_def)
  qed
  have first: "\<exists>e. flower_parse_opt env None (a # argv) n = Inl e \<and> diagnosed e"
    if kw: "keyword env a = K_dst_port \<or> keyword env a = K_src_port"
  proof -
    obtain tail st0 where start: "flower_parse_start env None n = Inr (tail, st0)"
      and proto: "s_ip_proto st0 = 0xff"
      by (simp add: flower_parse_start_def Let_def)
    have "gated env st0 a"
      using kw proto
      by (auto simp: gated_def Let_def IPPROTO_TCP_def IPPROTO_UDP_def IPPROTO_SCTP_def)
    moreover have "(st0, a) \<in> set (clause_states env st0 (a # argv))" by simp
    ultimately show ?thesis
      using loop_gated [of st0 a env st0 "a # argv"] start
      by (auto simp: flower_parse_opt_def)
  qed
  have ex1: "flower_parse_opt ref_env None [''ip_proto'', ''tcp'', ''dst_port'', ''80'']
        (empty_msg (htons True ETH_P_IP))
      = Inr \<lparr> nlmsg_len = 72, tcm_info = 8, tcm_handle = 0,
          attrs =
            [(36, \<lparr>rta_len = 36, rta_type = TCA_OPTIONS, rta_data = []\<rparr>),
             (40, \<lparr>rta_len = 5, rta_type = TCA_FLOWER_KEY_IP_PROTO, rta_data = [6]\<rparr>),
             (48, \<lparr>rta_len = 6, rta_type = TCA_FLOWER_KEY_TCP_DST, rta_data = [0, 80]\<rparr>),
             (56, \<lparr>rta_len = 8, rta_type = TCA_FLOWER_FLAGS, rta_data = [0, 0, 0, 0]\<rparr>),
             (64, \<lparr>rta_len = 6, rta_type = TCA_FLOWER_KEY_ETH_TYPE, rta_data = [8, 0]\<rparr>)] \<rparr>"
    by (simp add: enc_eval)
  have ex2: "flower_parse_opt ref_env None [''dst_port'', ''80''] (empty_msg (htons True ETH_P_IP))
      = Inl (Failed [Msg ''Illegal \"ip_proto\" for port\<newline>'',
                     Msg ''Illegal \"dst_port\"\<newline>''])"
    by (simp add: enc_eval)
  have d: "distinct [TCA_FLOWER_KEY_TCP_DST, TCA_FLOWER_KEY_TCP_SRC, TCA_FLOWER_KEY_UDP_DST,
                TCA_FLOWER_KEY_UDP_SRC, TCA_FLOWER_KEY_SCTP_DST, TCA_FLOWER_KEY_SCTP_SRC]"
    by simp
  show ?thesis
    by (intro conjI impI)
       (rule sel d ex1 ex2 | (rule hard [THEN conjunct1], assumption)
        | (rule hard [THEN conjunct2], assumption) | (rule emit, assumption)
        | (rule only, assumption) | (rule clause, assumption) | (rule step, assumption)
        | (rule first, assumption))+
qed

text \<open>
  The theorem at concrete inputs: protocol 1 (ICMP) is refused; UDP with direction
  source selects the UDP source identifier, and \<open>src_port 53\<close> after \<open>ip_proto udp\<close>
  appends the attribute with that identifier and the bytes 00 35, which is all that
  \<open>flower_parse_port\<close> emits.
\<close>

theorem port_attr_selection_witness:
  "(1 :: u8) \<noteq> IPPROTO_TCP \<and> (1 :: u8) \<noteq> IPPROTO_UDP \<and> (1 :: u8) \<noteq> IPPROTO_SCTP
   \<and> flower_port_attr_type 1 True = None
   \<and> flower_parse_port ref_env ''80'' 1 True (empty_msg (htons True ETH_P_IP))
        = Inl (Failed [Msg ''Illegal \"ip_proto\" for port\<newline>''])
   \<and> keyword ref_env ''src_port'' = K_src_port
   \<and> (\<exists>e. flower_parse_opt ref_env None [''src_port'', ''80''] (empty_msg (htons True ETH_P_IP))
            = Inl e \<and> diagnosed e)
   \<and> flower_port_attr_type IPPROTO_UDP True = Some TCA_FLOWER_KEY_UDP_SRC
   \<and> get_be16 ref_env ''53'' 10 = Some (htons True 53)
   \<and> flower_parse_port ref_env ''53'' IPPROTO_UDP True (empty_msg (htons True ETH_P_IP))
        = Inr \<lparr> nlmsg_len = 44, tcm_info = 8, tcm_handle = 0,
                attrs = [(36, \<lparr>rta_len = 6, rta_type = TCA_FLOWER_KEY_UDP_SRC,
                               rta_data = [0, 53]\<rparr>)] \<rparr>
   \<and> flower_parse_step ref_env
        \<lparr> s_eth_type = 8, s_vlan_ethtype = 0, s_ip_proto = IPPROTO_UDP, s_flags = 0,
          s_msg = empty_msg (htons True ETH_P_IP) \<rparr>
        ''src_port'' [''53'']
      = Inr (\<lparr> s_eth_type = 8, s_vlan_ethtype = 0, s_ip_proto = IPPROTO_UDP, s_flags = 0,
               s_msg = \<lparr> nlmsg_len = 44, tcm_info = 8, tcm_handle = 0,
                 attrs = [(36, \<lparr>rta_len = 6, rta_type = TCA_FLOWER_KEY_UDP_SRC,
                                rta_data = [0, 53]\<rparr>)] \<rparr> \<rparr>, 1)
   \<and> flower_parse_clause ref_env K_src_port ''53''
        \<lparr> s_eth_type = 8, s_vlan_ethtype = 0, s_ip_proto = IPPROTO_UDP, s_flags = 0,
          s_msg = empty_msg (htons True ETH_P_IP) \<rparr>
      = Inr \<lparr> s_eth_type = 8, s_vlan_ethtype = 0, s_ip_proto = IPPROTO_UDP, s_flags = 0,
              s_msg = \<lparr> nlmsg_len = 44, tcm_info = 8, tcm_handle = 0,
                attrs = [(36, \<lparr>rta_len = 6, rta_type = TCA_FLOWER_KEY_UDP_SRC,
                               rta_data = [0, 53]\<rparr>)] \<rparr> \<rparr>
   \<and> (\<exists>t' port'. flower_port_attr_type IPPROTO_UDP True = Some t'
          \<and> get_be16 ref_env ''53'' 10 = Some port'
          \<and> \<lparr> nlmsg_len = 44, tcm_info = 8, tcm_handle = 0,
               attrs = [(36, \<lparr>rta_len = 6, rta_type = TCA_FLOWER_KEY_UDP_SRC,
                              rta_data = [0, 53]\<rparr>)] \<rparr>
              = snd (addattr16 (host_le ref_env) (empty_msg (htons True ETH_P_IP))
                       (MAX_MSG ref_env) t' port'))"
proof -
  let ?n = "empty_msg (htons True ETH_P_IP)"
  let ?st = "\<lparr> s_eth_type = 8, s_vlan_ethtype = 0, s_ip_proto = IPPROTO_UDP, s_flags = 0,
               s_msg = ?n \<rparr>"
  have a: "(1 :: u8) \<noteq> IPPROTO_TCP \<and> (1 :: u8) \<noteq> IPPROTO_UDP \<and> (1 :: u8) \<noteq> IPPROTO_SCTP"
    by (simp add: IPPROTO_TCP_def IPPROTO_UDP_def IPPROTO_SCTP_def)
  have b: "keyword ref_env ''src_port'' = K_src_port"
    by (simp add: keyword_def)
  have c: "flower_port_attr_type IPPROTO_UDP True = Some TCA_FLOWER_KEY_UDP_SRC"
    by (simp add: flower_port_attr_type_def IPPROTO_TCP_def IPPROTO_UDP_def)
  have g: "get_be16 ref_env ''53'' 10 = Some (htons True 53)"
    by (simp add: parse_below_def parse_nat_def scan_digits_def digit_val_def)
  have v: "snd (addattr16 (host_le ref_env) ?n (MAX_MSG ref_env) TCA_FLOWER_KEY_UDP_SRC
                  (htons True 53))
           = \<lparr> nlmsg_len = 44, tcm_info = 8, tcm_handle = 0,
               attrs = [(36, \<lparr>rta_len = 6, rta_type = TCA_FLOWER_KEY_UDP_SRC,
                              rta_data = [0, 53]\<rparr>)] \<rparr>"
    by (simp add: addattr16_eq NLMSG_ALIGN_def empty_msg_def htons_def ETH_P_IP_def
        u16_mem_def be16_def)
  note thm1 = port_attr_selection [where p = 1 and s = True and env = ref_env
      and str = "''80''" and n = ?n and a = "''src_port''" and argv = "[''80'']"]
  note thm2 = port_attr_selection [where q = IPPROTO_UDP and d = True and env = ref_env
      and str = "''53''" and n = ?n and a = "''src_port''" and argv = "[]"
      and t = TCA_FLOWER_KEY_UDP_SRC and port = "htons True 53" and st = ?st
      and kw = K_src_port
      and n' = "\<lparr> nlmsg_len = 44, tcm_info = 8, tcm_handle = 0,
                 attrs = [(36, \<lparr>rta_len = 6, rta_type = TCA_FLOWER_KEY_UDP_SRC,
                                rta_data = [0, 53]\<rparr>)] \<rparr>"]
  from thm1 a have r1: "flower_port_attr_type 1 True = None"
    "flower_parse_port ref_env ''80'' 1 True ?n
        = Inl (Failed [Msg ''Illegal \"ip_proto\" for port\<newline>''])"
    by blast+
  from thm1 b have r2: "\<exists>e. flower_parse_opt ref_env None [''src_port'', ''80''] ?n = Inl e
      \<and> diagnosed e"
    by blast
  from thm2 c g have r3: "flower_parse_port ref_env ''53'' IPPROTO_UDP True ?n
      = Inr (snd (addattr16 (host_le ref_env) ?n (MAX_MSG ref_env) TCA_FLOWER_KEY_UDP_SRC
                    (htons True 53)))"
    by blast
  have c': "flower_port_attr_type (s_ip_proto ?st) (keyword ref_env ''src_port'' = K_src_port)
            = Some TCA_FLOWER_KEY_UDP_SRC"
    using b c by simp
  from thm2 b c' g have r4: "flower_parse_step ref_env ?st ''src_port'' [''53'']
      = Inr (?st\<lparr>s_msg := snd (addattr16 (host_le ref_env) (s_msg ?st) (MAX_MSG ref_env)
                                TCA_FLOWER_KEY_UDP_SRC (htons True 53))\<rparr>, 1)"
    by blast
  from r3 v have r3': "flower_parse_port ref_env ''53'' IPPROTO_UDP True ?n
        = Inr \<lparr> nlmsg_len = 44, tcm_info = 8, tcm_handle = 0,
                attrs = [(36, \<lparr>rta_len = 6, rta_type = TCA_FLOWER_KEY_UDP_SRC,
                               rta_data = [0, 53]\<rparr>)] \<rparr>"
    by (simp only:)
  from r4 v have r4': "flower_parse_step ref_env ?st ''src_port'' [''53'']
      = Inr (\<lparr> s_eth_type = 8, s_vlan_ethtype = 0, s_ip_proto = IPPROTO_UDP, s_flags = 0,
               s_msg = \<lparr> nlmsg_len = 44, tcm_info = 8, tcm_handle = 0,
                 attrs = [(36, \<lparr>rta_len = 6, rta_type = TCA_FLOWER_KEY_UDP_SRC,
                                rta_data = [0, 53]\<rparr>)] \<rparr> \<rparr>, 1)"
    by simp
  have c'': "flower_port_attr_type (s_ip_proto ?st) (K_src_port = K_src_port)
            = Some TCA_FLOWER_KEY_UDP_SRC"
    using c by simp
  from thm2 c'' g have r5: "flower_parse_clause ref_env K_src_port ''53'' ?st
      = Inr (?st\<lparr>s_msg := snd (addattr16 (host_le ref_env) (s_msg ?st) (MAX_MSG ref_env)
                               TCA_FLOWER_KEY_UDP_SRC (htons True 53))\<rparr>)"
    by blast
  from r5 v have r5': "flower_parse_clause ref_env K_src_port ''53'' ?st
      = Inr \<lparr> s_eth_type = 8, s_vlan_ethtype = 0, s_ip_proto = IPPROTO_UDP, s_flags = 0,
              s_msg = \<lparr> nlmsg_len = 44, tcm_info = 8, tcm_handle = 0,
                attrs = [(36, \<lparr>rta_len = 6, rta_type = TCA_FLOWER_KEY_UDP_SRC,
                               rta_data = [0, 53]\<rparr>)] \<rparr> \<rparr>"
    by simp
  from thm2 r3' have r6: "\<exists>t' port'. flower_port_attr_type IPPROTO_UDP True = Some t'
          \<and> get_be16 ref_env ''53'' 10 = Some port'
          \<and> \<lparr> nlmsg_len = 44, tcm_info = 8, tcm_handle = 0,
               attrs = [(36, \<lparr>rta_len = 6, rta_type = TCA_FLOWER_KEY_UDP_SRC,
                              rta_data = [0, 53]\<rparr>)] \<rparr>
              = snd (addattr16 (host_le ref_env) ?n (MAX_MSG ref_env) t' port')"
    by blast
  show ?thesis
    by (intro conjI) (rule a [THEN conjunct1] a [THEN conjunct2, THEN conjunct1]
        a [THEN conjunct2, THEN conjunct2] r1 b r2 c g r3' r4' r5' r6)+
qed


section \<open>The encoder: prefix to mask\<close>

lemma u32_mem_htonl: "u32_mem le (htonl le x) = be32 x"
proof (cases le)
  case False
  then show ?thesis by (simp add: u32_mem_def htonl_def)
next
  case True
  have c: "(0xFF00 :: u32) = push_bit 8 (mask 8)"
    by (simp add: mask_eq_exp_minus_1)
  have "be32 (push_bit 24 x OR push_bit 8 (x AND 0xFF00)
                 OR (drop_bit 8 x AND 0xFF00) OR drop_bit 24 x) = rev (be32 x)"
    unfolding be32_def c
    apply (simp only: rev.simps append.simps list.inject simp_thms)
    apply (intro conjI; rule bit_word_eqI)
       apply (simp_all only: bit_ucast_iff bit_or_iff bit_and_iff bit_push_bit_iff
        bit_drop_bit_eq bit_mask_iff possible_bit_word len_bit0 len_num1 o_def)
       apply (auto simp: add.commute dest: bit_imp_le_length)
    done
  with True show ?thesis by (simp add: u32_mem_def htonl_def)
qed

lemma u32_mem_0: "u32_mem le 0 = [0, 0, 0, 0]"
  by (simp add: u32_mem_def be32_def)

lemma mem_u32_ones: "mem_u32 le [0xff, 0xff, 0xff, 0xff] = 0xFFFFFFFF"
  by (simp add: mem_u32_def word_be_def)

lemma store32_length: "4 * i + 4 \<le> length mem \<Longrightarrow> length (store32 le mem i v) = length mem"
  by (simp add: store32_def)

lemma store32_take: "4 * i + 4 \<le> length mem \<Longrightarrow>
  take (4 * i + 4) (store32 le mem i v) = take (4 * i) mem @ u32_mem le v"
  by (simp add: store32_def)

lemma store32_drop: "4 * i + 4 \<le> length mem \<Longrightarrow> 4 * i + 4 \<le> k \<Longrightarrow>
  drop k (store32 le mem i v) = drop k mem"
  by (simp add: store32_def)

lemma load32_ones:
  "take 4 (drop (4 * i) mem) = [0xff, 0xff, 0xff, 0xff] \<Longrightarrow> load32 le mem i = 0xFFFFFFFF"
  by (simp add: load32_def mem_u32_ones)

lemma rest_mask_zero: "rest_mask 0 k = [0, 0, 0, 0]"
  by (simp add: rest_mask_def)

lemma rest_mask_Suc_ge: "32 \<le> bits \<Longrightarrow> rest_mask bits (Suc k) = rest_mask (bits - 32) k"
  by (simp add: rest_mask_def algebra_simps)

lemma rest_mask_Suc_lt: "bits < 32 \<Longrightarrow> 0 \<le> bits \<Longrightarrow> rest_mask bits (Suc k) = rest_mask 0 k"
  by (simp add: rest_mask_def)

lemma concat_upt_Suc:
  "0 < m \<Longrightarrow> concat (map f [0..<m]) = f 0 @ concat (map (\<lambda>k. f (Suc k)) [0..<m - 1])"
proof -
  assume "0 < m"
  then obtain m' where m: "m = Suc m'" by (cases m) auto
  have "[0..<Suc m'] = 0 # map Suc [0..<m']"
    by (simp add: upt_conv_Cons map_Suc_upt del: upt_Suc)
  with m show ?thesis by (simp add: o_def del: upt_Suc)
qed

lemma ones_tail:
  assumes "take (4 * (n - i)) (drop (4 * i) mem) = replicate (4 * (n - i)) c" "i < n"
  shows "take 4 (drop (4 * i) mem) = replicate 4 c"
    and "take (4 * (n - (i + 1))) (drop (4 * (i + 1)) mem) = replicate (4 * (n - (i + 1))) c"
proof -
  let ?r = "take (4 * (n - i)) (drop (4 * i) mem)"
  have "take 4 ?r = replicate 4 c" using assms by (simp add: min_def)
  moreover have "take 4 ?r = take 4 (drop (4 * i) mem)" using assms(2) by (simp add: min_def)
  ultimately show "take 4 (drop (4 * i) mem) = replicate 4 c" by simp
  have "drop 4 ?r = replicate (4 * (n - i) - 4) c" using assms by simp
  moreover have "drop 4 ?r = take (4 * (n - i) - 4) (drop (4 * i + 4) mem)"
    by (simp add: drop_take add.commute)
  moreover have "4 * (n - i) - 4 = 4 * (n - (i + 1))" using assms(2) by simp
  ultimately show "take (4 * (n - (i + 1))) (drop (4 * (i + 1)) mem)
      = replicate (4 * (n - (i + 1))) c"
    by (simp add: algebra_simps)
qed

lemma prefix_mask_loop_closed:
  assumes "i \<le> n" "4 * n \<le> length mem" "0 \<le> bits"
    and "take (4 * (n - i)) (drop (4 * i) mem) = replicate (4 * (n - i)) 0xff"
  shows "prefix_mask_loop le i n bits mem
         = take (4 * i) mem @ concat (map (rest_mask bits) [0..<n - i]) @ drop (4 * n) mem"
  using assms
proof (induction le i n bits mem rule: prefix_mask_loop.induct)
  case (1 le i n bits mem)
  show ?case
  proof (cases "i < n")
    case False
    with "1.prems" have "i = n" by simp
    then show ?thesis by (simp add: prefix_mask_loop.simps [of le n n])
  next
    case True
    then have fit: "4 * i + 4 \<le> length mem" using "1.prems"(2) by simp
    note ot = ones_tail [OF "1.prems"(4) True]
    have g0: "take 4 (drop (4 * i) mem) = [0xff, 0xff, 0xff, 0xff]"
      using ot(1) by (simp add: eval_nat_numeral)
    have cc: "concat (map (rest_mask bits) [0..<n - i])
              = rest_mask bits 0 @ concat (map (\<lambda>k. rest_mask bits (Suc k)) [0..<n - (i + 1)])"
      using concat_upt_Suc [of "n - i" "rest_mask bits"] True by simp
    have split_mem: "take (4 * i + 4) mem = take (4 * i) mem @ take 4 (drop (4 * i) mem)"
      by (simp add: take_add)
    have stored: "prefix_mask_loop le (i + 1) n b' (store32 le mem i v)
          = take (4 * i) mem @ u32_mem le v @ concat (map (rest_mask b') [0..<n - (i + 1)])
            @ drop (4 * n) mem"
      if ih: "\<And>m'. m' = store32 le mem i v \<Longrightarrow> i + 1 \<le> n \<Longrightarrow> 4 * n \<le> length m' \<Longrightarrow> 0 \<le> b' \<Longrightarrow>
                take (4 * (n - (i + 1))) (drop (4 * (i + 1)) m') = replicate (4 * (n - (i + 1))) 0xff \<Longrightarrow>
                prefix_mask_loop le (i + 1) n b' m'
                = take (4 * (i + 1)) m' @ concat (map (rest_mask b') [0..<n - (i + 1)]) @ drop (4 * n) m'"
        and b': "0 \<le> b'"
      for b' v
    proof -
      let ?m = "store32 le mem i v"
      have d1: "drop (4 * (i + 1)) ?m = drop (4 * (i + 1)) mem"
        using store32_drop [OF fit, of "4 * (i + 1)" le v] by simp
      have d2: "drop (4 * n) ?m = drop (4 * n) mem"
        using store32_drop [OF fit, of "4 * n" le v] True by simp
      have t: "take (4 * (i + 1)) ?m = take (4 * i) mem @ u32_mem le v"
        using store32_take [OF fit, of le v] by (simp add: add.commute)
      have pre: "take (4 * (n - (i + 1))) (drop (4 * (i + 1)) ?m)
                 = replicate (4 * (n - (i + 1))) 0xff"
        using ot(2) by (simp only: d1)
      have len: "4 * n \<le> length ?m"
        using "1.prems"(2) by (simp add: store32_length [OF fit])
      have le1: "i + 1 \<le> n" using True by simp
      show ?thesis
        by (simp only: ih [OF refl le1 len b' pre] t d2 append_assoc)
    qed
    have t32: "take (4 * (i + 1)) mem = take (4 * i) mem @ [0xff, 0xff, 0xff, 0xff]"
      using split_mem g0 by (simp add: add.commute)
    show ?thesis
    proof (cases "bits = 0")
      case z: True
      have tl: "(\<lambda>k. rest_mask bits (Suc k)) = rest_mask 0"
        using z by (intro ext) (simp add: rest_mask_zero)
      have hd: "rest_mask bits 0 = u32_mem le 0"
        using z by (simp add: rest_mask_zero u32_mem_0)
      have "prefix_mask_loop le i n bits mem = prefix_mask_loop le (i + 1) n 0 (store32 le mem i 0)"
        using True z by (simp add: prefix_mask_loop.simps [of le i n])
      also have "\<dots> = take (4 * i) mem @ u32_mem le 0 @ concat (map (rest_mask 0) [0..<n - (i + 1)])
            @ drop (4 * n) mem"
        using "1.IH"(1) [OF True] z by (intro stored) simp_all
      finally show ?thesis
        by (simp only: cc tl hd append_assoc)
    next
      case nz: False
      show ?thesis
      proof (cases "bits div 32 \<ge> 1")
        case ge: True
        then have b32: "32 \<le> bits" by presburger
        have tl: "(\<lambda>k. rest_mask bits (Suc k)) = rest_mask (bits - 32)"
          using b32 by (intro ext) (simp add: rest_mask_Suc_ge)
        have hd: "rest_mask bits 0 = [0xff, 0xff, 0xff, 0xff]"
          using b32 by (simp add: rest_mask_def)
        have "prefix_mask_loop le i n bits mem = prefix_mask_loop le (i + 1) n (bits - 32) mem"
          using True nz ge by (simp add: prefix_mask_loop.simps [of le i n])
        also have "\<dots> = take (4 * (i + 1)) mem @ concat (map (rest_mask (bits - 32)) [0..<n - (i + 1)])
            @ drop (4 * n) mem"
          using "1.IH"(2) [OF True nz ge] True "1.prems"(2) b32 ot(2) by simp
        finally show ?thesis
          by (simp only: cc tl hd t32 append_assoc)
      next
        case lt: False
        then have b32: "bits < 32" by presburger
        have pos: "0 < bits" using nz "1.prems"(3) by simp
        let ?v = "htonl le (push_bit (nat (32 - bits)) (load32 le mem i))"
        have tl: "(\<lambda>k. rest_mask bits (Suc k)) = rest_mask 0"
          using b32 pos by (intro ext) (simp add: rest_mask_Suc_lt)
        have hd: "rest_mask bits 0 = u32_mem le ?v"
          using b32 pos by (simp add: rest_mask_def u32_mem_htonl load32_ones [OF g0])
        have "prefix_mask_loop le i n bits mem = prefix_mask_loop le (i + 1) n 0 (store32 le mem i ?v)"
          using True nz lt by (simp add: prefix_mask_loop.simps [of le i n])
        also have "\<dots> = take (4 * i) mem @ u32_mem le ?v @ concat (map (rest_mask 0) [0..<n - (i + 1)])
            @ drop (4 * n) mem"
          using "1.IH"(3) [OF True nz lt] by (intro stored) simp_all
        finally show ?thesis
          by (simp only: cc tl hd append_assoc)
      qed
    qed
  qed
qed

lemma length_rest_mask [simp]: "length (rest_mask bits k) = 4"
  by (simp add: rest_mask_def be32_def)

lemma length_concat_groups:
  "(\<And>k. length (f k) = 4) \<Longrightarrow> length (concat (map f [0..<n])) = 4 * n"
  by (induction n) simp_all

lemma group4_concat:
  assumes "\<And>k. length (f k) = 4" "i < n"
  shows "group4 i (concat (map f [0..<n])) = f i"
  using assms(2)
proof (induction n)
  case 0
  then show ?case by simp
next
  case (Suc n)
  have len: "length (concat (map f [0..<n])) = 4 * n"
    by (rule length_concat_groups) (rule assms(1))
  show ?case
  proof (cases "i < n")
    case True
    with Suc.IH len show ?thesis by (simp add: group4_def)
  next
    case False
    with Suc.prems have "i = n" by simp
    with len assms(1) [of n] show ?thesis by (simp add: group4_def)
  qed
qed

lemma concat_const_groups:
  "concat (map (\<lambda>k. [c, c, c, c]) [0..<n]) = replicate (4 * n) c"
proof (induction n)
  case 0
  then show ?case by simp
next
  case (Suc n)
  have "replicate (4 * Suc n) c = replicate (4 * n) c @ replicate 4 c"
    by (simp add: replicate_add [symmetric])
  moreover have "replicate 4 c = [c, c, c, c]"
    by (simp add: eval_nat_numeral)
  ultimately show ?case using Suc by simp
qed

lemma rest_mask_group_mask:
  assumes "p \<le> 32 * n" "i < n"
  shows "rest_mask (int p) i = group_mask p i"
proof -
  have "p mod 32 = p - 32 * i" if "32 * i < p" "p < 32 * (i + 1)"
  proof -
    have "p = 32 * i + (p - 32 * i)" using that by simp
    moreover have "p - 32 * i < 32" using that by simp
    ultimately show ?thesis by (metis mod_mult_self4 mod_less)
  qed
  then have bnd: "nat (32 - (int p - 32 * int i)) = 32 - p mod 32"
    if "32 * i < p" "p < 32 * (i + 1)"
    using that by simp
  show ?thesis
  proof (cases "32 * (i + 1) \<le> p")
    case True
    then show ?thesis by (simp add: rest_mask_def group_mask_def)
  next
    case False
    show ?thesis
    proof (cases "p \<le> 32 * i")
      case True
      with False show ?thesis by (simp add: rest_mask_def group_mask_def)
    next
      case gt: False
      with False bnd have "nat (32 - (int p - 32 * int i)) = 32 - p mod 32" by simp
      with False gt show ?thesis
        by (simp only: rest_mask_def group_mask_def) simp
    qed
  qed
qed

lemma flower_prefix_mask_closed:
  assumes "bytelen addr = b" "b mod 4 = 0" "0 \<le> bitlen addr"
  shows "take b (flower_prefix_mask le addr)
         = concat (map (rest_mask (bitlen addr)) [0..<b div 4])"
proof -
  let ?n = "b div 4"
  let ?mem = "memset (data addr) 0xff b"
  have b: "b = 4 * ?n" using assms(2) by presburger
  have len: "4 * ?n \<le> length ?mem" using b by (simp add: memset_def)
  have ones: "take (4 * (?n - 0)) (drop (4 * 0) ?mem) = replicate (4 * (?n - 0)) 0xff"
    using b by (simp add: memset_def)
  have "prefix_mask_loop le 0 ?n (bitlen addr) ?mem
        = take (4 * 0) ?mem @ concat (map (rest_mask (bitlen addr)) [0..<?n - 0]) @ drop (4 * ?n) ?mem"
    by (rule prefix_mask_loop_closed [OF _ len assms(3) ones]) simp
  then have "flower_prefix_mask le addr
        = concat (map (rest_mask (bitlen addr)) [0..<?n]) @ drop (4 * ?n) ?mem"
    using assms(1) by (simp add: flower_prefix_mask_def)
  moreover have "length (concat (map (rest_mask (bitlen addr)) [0..<?n])) = b"
    using b length_concat_groups [of "rest_mask (bitlen addr)" ?n] by simp
  ultimately show ?thesis by simp
qed

text \<open>
  C4.  For an address of \<open>b\<close> bytes (\<open>b\<close> a multiple of 4, so 4 for IPv4 and 16 for
  IPv6) and a prefix length \<open>p\<close> with \<open>0 \<le> p \<le> 8 * b\<close>, the \<open>b\<close> bytes that the encoder
  passes as the mask have, in each 4-byte group, all ones if the group is fully
  covered by \<open>p\<close>, all zeros if it is fully beyond \<open>p\<close>, and \<open>0xFFFFFFFF << (32 - p mod 32)\<close>
  in network byte order in the boundary group, on either byte order of the host; the
  mask is all zeros for \<open>p = 0\<close> and all ones for \<open>p = 8 * b\<close>; and these bytes are what
  \<open>flower_parse_ip_addr\<close> hands to \<open>addattr_l\<close> under the mask identifier.
\<close>

theorem prefix_to_mask:
  assumes "bytelen addr = b" and "b mod 4 = 0"
    and "0 \<le> bitlen addr" and "bitlen addr \<le> 8 * int b" and "p = nat (bitlen addr)"
  shows "length (take b (flower_prefix_mask (host_le env) addr)) = b
       \<and> (\<forall>i < b div 4. group4 i (take b (flower_prefix_mask (host_le env) addr)) = group_mask p i)
       \<and> (p = 0 \<longrightarrow> take b (flower_prefix_mask (host_le env) addr) = replicate b 0)
       \<and> (p = 8 * b \<longrightarrow> take b (flower_prefix_mask (host_le env) addr) = replicate b 0xff)
       \<and> ((eth = htons (host_le env) ETH_P_IP \<and> fam = AF_INET
            \<or> eth \<noteq> htons (host_le env) ETH_P_IP \<and> eth = htons (host_le env) ETH_P_IPV6
              \<and> fam = AF_INET6)
           \<and> get_prefix env str fam = Some addr \<and> family addr = fam \<longrightarrow>
           flower_parse_ip_addr env str eth a4 m4 a6 m6 n
           = Inr (snd (addattr_l
                    (snd (addattr_l n (MAX_MSG env) (if fam = AF_INET then a4 else a6)
                            (take b (data addr))))
                    (MAX_MSG env) (if fam = AF_INET then m4 else m6)
                    (take b (flower_prefix_mask (host_le env) addr)))))"
proof -
  let ?le = "host_le env"
  let ?n = "b div 4"
  let ?mask = "take b (flower_prefix_mask ?le addr)"
  have b: "b = 4 * ?n" using assms(2) by presburger
  have bits: "bitlen addr = int p" using assms(3,5) by simp
  have pn: "p \<le> 32 * ?n" using assms(4) bits b by linarith
  have closed: "?mask = concat (map (rest_mask (int p)) [0..<?n])"
    using flower_prefix_mask_closed [OF assms(1,2,3), of ?le] bits by simp
  have len: "length ?mask = b"
    using closed b length_concat_groups [of "rest_mask (int p)" ?n] by simp
  have grp: "\<forall>i < ?n. group4 i ?mask = group_mask p i"
    using closed group4_concat [of "rest_mask (int p)" _ ?n] rest_mask_group_mask [OF pn]
    by simp
  have zero: "?mask = replicate b 0" if "p = 0"
  proof -
    have "rest_mask (int p) = (\<lambda>k. [0, 0, 0, 0])"
      using that by (intro ext) (simp add: rest_mask_def)
    with closed b concat_const_groups [of 0 ?n] show ?thesis by simp
  qed
  have full: "?mask = replicate b 0xff" if "p = 8 * b"
  proof -
    have "map (rest_mask (int p)) [0..<?n] = map (\<lambda>k. [0xff, 0xff, 0xff, 0xff]) [0..<?n]"
      using that b by (intro map_cong refl) (simp add: rest_mask_def)
    with closed b concat_const_groups [of "0xff" ?n] show ?thesis by simp
  qed
  have enc: "flower_parse_ip_addr env str eth a4 m4 a6 m6 n
           = Inr (snd (addattr_l
                    (snd (addattr_l n (MAX_MSG env) (if fam = AF_INET then a4 else a6)
                            (take b (data addr))))
                    (MAX_MSG env) (if fam = AF_INET then m4 else m6) ?mask))"
    if "(eth = htons ?le ETH_P_IP \<and> fam = AF_INET
            \<or> eth \<noteq> htons ?le ETH_P_IP \<and> eth = htons ?le ETH_P_IPV6 \<and> fam = AF_INET6)
           \<and> get_prefix env str fam = Some addr \<and> family addr = fam"
  proof -
    from that have gp: "get_prefix env str fam = Some addr" and fa: "family addr = fam"
      by simp_all
    from that consider
      (v4) "eth = htons ?le ETH_P_IP" "fam = AF_INET"
      | (v6) "eth \<noteq> htons ?le ETH_P_IP" "eth = htons ?le ETH_P_IPV6" "fam = AF_INET6"
      by blast
    then show ?thesis
    proof cases
      case v4
      with gp fa assms(1) show ?thesis
        by (simp add: flower_parse_ip_addr_def Let_def)
    next
      case v6
      with gp fa assms(1) show ?thesis
        by (simp add: flower_parse_ip_addr_def Let_def AF_INET_def AF_INET6_def)
    qed
  qed
  from zero have z': "p = 0 \<longrightarrow> ?mask = replicate b 0" by blast
  from full have f': "p = 8 * b \<longrightarrow> ?mask = replicate b 0xff" by blast
  from enc have e': "(eth = htons ?le ETH_P_IP \<and> fam = AF_INET
            \<or> eth \<noteq> htons ?le ETH_P_IP \<and> eth = htons ?le ETH_P_IPV6 \<and> fam = AF_INET6)
           \<and> get_prefix env str fam = Some addr \<and> family addr = fam \<longrightarrow>
           flower_parse_ip_addr env str eth a4 m4 a6 m6 n
           = Inr (snd (addattr_l
                    (snd (addattr_l n (MAX_MSG env) (if fam = AF_INET then a4 else a6)
                            (take b (data addr))))
                    (MAX_MSG env) (if fam = AF_INET then m4 else m6) ?mask))"
    by blast
  show ?thesis
    by (intro conjI) (rule len, rule grp, rule z', rule f', rule e')
qed

theorem prefix_to_mask_witness:
  "bytelen \<lparr> family = AF_INET6, bytelen = 16, bitlen = 77, data = replicate 32 0 \<rparr> = 16
   \<and> (16 :: nat) mod 4 = 0 \<and> (0 :: int) \<le> 77 \<and> (77 :: int) \<le> 8 * int 16
   \<and> map (\<lambda>i. group4 i (take 16 (flower_prefix_mask (host_le ref_env)
               \<lparr> family = AF_INET6, bytelen = 16, bitlen = 77, data = replicate 32 0 \<rparr>)))
         [0, 1, 2, 3]
       = [[0xff, 0xff, 0xff, 0xff], [0xff, 0xff, 0xff, 0xff], [0xff, 0xf8, 0, 0], [0, 0, 0, 0]]"
proof -
  let ?addr = "\<lparr> family = AF_INET6, bytelen = 16, bitlen = 77, data = replicate 32 0 \<rparr>"
  have h1: "bytelen ?addr = 16" by simp
  have h2: "(16 :: nat) mod 4 = 0" by simp
  have h3: "0 \<le> bitlen ?addr" by simp
  have h4: "bitlen ?addr \<le> 8 * int 16" by simp
  have h5: "77 = nat (bitlen ?addr)" by simp
  from prefix_to_mask [OF h1 h2 h3 h4 h5, of ref_env]
  have g: "\<forall>i < 16 div 4. group4 i (take 16 (flower_prefix_mask (host_le ref_env) ?addr))
            = group_mask 77 i"
    by blast
  have gm: "group_mask 77 0 = [0xff, 0xff, 0xff, 0xff]" "group_mask 77 1 = [0xff, 0xff, 0xff, 0xff]"
    "group_mask 77 2 = [0xff, 0xf8, 0, 0]" "group_mask 77 3 = [0, 0, 0, 0]"
    by (simp_all add: group_mask_def be32_def)
  from g have "group4 0 (take 16 (flower_prefix_mask (host_le ref_env) ?addr)) = group_mask 77 0"
    "group4 1 (take 16 (flower_prefix_mask (host_le ref_env) ?addr)) = group_mask 77 1"
    "group4 2 (take 16 (flower_prefix_mask (host_le ref_env) ?addr)) = group_mask 77 2"
    "group4 3 (take 16 (flower_prefix_mask (host_le ref_env) ?addr)) = group_mask 77 3"
    by simp_all
  with gm show ?thesis by simp
qed

section \<open>The encoder and the decoder: MAC addresses\<close>

lemma mask_bits_ff6: "mask_bits [0xff, 0xff, 0xff, 0xff, 0xff, 0xff] = 48"
  by code_simp

lemma mask_bits_ones6: "mask_bits (replicate 6 0xff) = 48"
proof -
  have "replicate 6 (0xff :: u8) = [0xff, 0xff, 0xff, 0xff, 0xff, 0xff]"
    by (simp add: eval_nat_numeral)
  then show ?thesis by (simp only: mask_bits_ff6)
qed

lemma flower_parse_eth_addr_Inr:
  assumes "flower_parse_eth_addr env str at mt n = Inr n'"
  shows "\<exists>a. length a = ETH_ALEN \<and>
           n' = snd (addattr_l (snd (addattr_l n (MAX_MSG env) at a)) (MAX_MSG env) mt
                      (replicate ETH_ALEN 0xff))"
proof -
  from assms obtain x where x: "ll_addr_a2n env str = Some x"
    by (cases "ll_addr_a2n env str") (auto simp: flower_parse_eth_addr_def)
  with assms show ?thesis
    by (intro exI [of _ "take ETH_ALEN (x @ replicate ETH_ALEN 0)"])
       (auto simp: flower_parse_eth_addr_def Let_def memset_def)
qed

lemma print_eth_addr_exact:
  assumes "length a = ETH_ALEN"
  shows "flower_print_eth_addr env f name
           (Some \<lparr> rta_len = RTA_LENGTH ETH_ALEN, rta_type = at, rta_data = a \<rparr>)
           (Some \<lparr> rta_len = RTA_LENGTH ETH_ALEN, rta_type = mt,
                   rta_data = replicate ETH_ALEN 0xff \<rparr>)
         = Inr (f @ ''\<newline>  '' @ name @ '' '' @ ll_addr_n2a env a)"
  using assms
  by (simp add: flower_print_eth_addr_def RTA_PAYLOAD_def RTA_LENGTH_def rta_bytes_def
      then_do_def Let_def mask_bits_ones6 ETH_ALEN_def)

text \<open>
  C6.  A \<open>dst_mac\<close> or \<open>src_mac\<close> clause that is encoded passes to the message the six
  bytes of the address and, under the mask identifier, six bytes \<open>0xff\<close>; and the
  decoder, given an address attribute and a mask attribute with these payloads,
  prints the address and no mask suffix.
\<close>

theorem mac_mask_exact:
  assumes "kw = K_dst_mac \<or> kw = K_src_mac"
    and "flower_parse_clause env kw v st = Inr st'"
  shows "\<exists>a. length a = ETH_ALEN
           \<and> s_msg st' =
               snd (addattr_l
                      (snd (addattr_l (s_msg st) (MAX_MSG env)
                              (if kw = K_dst_mac then TCA_FLOWER_KEY_ETH_DST
                               else TCA_FLOWER_KEY_ETH_SRC) a))
                      (MAX_MSG env)
                      (if kw = K_dst_mac then TCA_FLOWER_KEY_ETH_DST_MASK
                       else TCA_FLOWER_KEY_ETH_SRC_MASK)
                      (replicate ETH_ALEN 0xff))
           \<and> (\<forall>f name at mt.
                 flower_print_eth_addr env f name
                   (Some \<lparr> rta_len = RTA_LENGTH ETH_ALEN, rta_type = at, rta_data = a \<rparr>)
                   (Some \<lparr> rta_len = RTA_LENGTH ETH_ALEN, rta_type = mt,
                           rta_data = replicate ETH_ALEN 0xff \<rparr>)
                 = Inr (f @ ''\<newline>  '' @ name @ '' '' @ ll_addr_n2a env a))"
proof -
  have "\<exists>n'. flower_parse_eth_addr env v
            (if kw = K_dst_mac then TCA_FLOWER_KEY_ETH_DST else TCA_FLOWER_KEY_ETH_SRC)
            (if kw = K_dst_mac then TCA_FLOWER_KEY_ETH_DST_MASK else TCA_FLOWER_KEY_ETH_SRC_MASK)
            (s_msg st) = Inr n' \<and> s_msg st' = n'"
  proof (cases "kw = K_dst_mac")
    case True
    with assms(2) show ?thesis
      by (cases "flower_parse_eth_addr env v TCA_FLOWER_KEY_ETH_DST
                   TCA_FLOWER_KEY_ETH_DST_MASK (s_msg st)")
         (auto simp: flower_parse_clause_def Let_def)
  next
    case False
    with assms(1) have kw: "kw = K_src_mac" by simp
    with assms(2) show ?thesis
      by (cases "flower_parse_eth_addr env v TCA_FLOWER_KEY_ETH_SRC
                   TCA_FLOWER_KEY_ETH_SRC_MASK (s_msg st)")
         (auto simp: flower_parse_clause_def Let_def)
  qed
  then obtain n' where
    enc: "flower_parse_eth_addr env v
            (if kw = K_dst_mac then TCA_FLOWER_KEY_ETH_DST else TCA_FLOWER_KEY_ETH_SRC)
            (if kw = K_dst_mac then TCA_FLOWER_KEY_ETH_DST_MASK else TCA_FLOWER_KEY_ETH_SRC_MASK)
            (s_msg st) = Inr n'" and st': "s_msg st' = n'"
    by blast
  from flower_parse_eth_addr_Inr [OF enc] st' obtain a where
    a: "length a = ETH_ALEN" and
    m: "s_msg st' =
               snd (addattr_l
                      (snd (addattr_l (s_msg st) (MAX_MSG env)
                              (if kw = K_dst_mac then TCA_FLOWER_KEY_ETH_DST
                               else TCA_FLOWER_KEY_ETH_SRC) a))
                      (MAX_MSG env)
                      (if kw = K_dst_mac then TCA_FLOWER_KEY_ETH_DST_MASK
                       else TCA_FLOWER_KEY_ETH_SRC_MASK)
                      (replicate ETH_ALEN 0xff))"
    by auto
  from a m print_eth_addr_exact [OF a, of env] show ?thesis by blast
qed

text \<open>The spec's example, \<open>dst_mac aa:bb:cc:dd:ee:ff\<close>, encoded and then decoded.\<close>

lemmas dec_eval = flower_print_eth_addr_def RTA_PAYLOAD_def then_do_def rta_bytes_def
  fmt_0x_def fmt_d_def fmt_x_def digits_of.simps digit_char_def join_with_def

lemma ref_ll_addr_a2n_ex:
  "ref_ll_addr_a2n ''aa:bb:cc:dd:ee:ff'' = Some [0xaa, 0xbb, 0xcc, 0xdd, 0xee, 0xff]"
  by (simp add: ref_ll_addr_a2n_def parse_below_def parse_nat_def scan_digits_def digit_val_def
      ETH_ALEN_def)

lemma ref_ll_addr_n2a_ex:
  "ll_addr_n2a ref_env [0xaa, 0xbb, 0xcc, 0xdd, 0xee, 0xff] = ''aa:bb:cc:dd:ee:ff''"
  by (simp add: ref_env_def dec_eval)

lemma replicate6: "replicate 6 x = [x, x, x, x, x, x]"
  by (simp add: eval_nat_numeral)

theorem mac_mask_exact_witness:
  "flower_parse_clause ref_env K_dst_mac ''aa:bb:cc:dd:ee:ff''
      \<lparr> s_eth_type = 8, s_vlan_ethtype = 0, s_ip_proto = 0xff, s_flags = 0,
        s_msg = \<lparr> nlmsg_len = 40, tcm_info = 8, tcm_handle = 0,
                  attrs = [(36, \<lparr>rta_len = 4, rta_type = TCA_OPTIONS, rta_data = []\<rparr>)] \<rparr> \<rparr>
    = Inr \<lparr> s_eth_type = 8, s_vlan_ethtype = 0, s_ip_proto = 0xff, s_flags = 0,
        s_msg = \<lparr> nlmsg_len = 64, tcm_info = 8, tcm_handle = 0,
          attrs = [(36, \<lparr>rta_len = 4, rta_type = TCA_OPTIONS, rta_data = []\<rparr>),
                   (40, \<lparr>rta_len = 10, rta_type = TCA_FLOWER_KEY_ETH_DST,
                         rta_data = [0xaa, 0xbb, 0xcc, 0xdd, 0xee, 0xff]\<rparr>),
                   (52, \<lparr>rta_len = 10, rta_type = TCA_FLOWER_KEY_ETH_DST_MASK,
                         rta_data = [0xff, 0xff, 0xff, 0xff, 0xff, 0xff]\<rparr>)] \<rparr> \<rparr>
   \<and> flower_print_eth_addr ref_env [] ''dst_mac''
        (Some \<lparr>rta_len = 10, rta_type = TCA_FLOWER_KEY_ETH_DST,
                rta_data = [0xaa, 0xbb, 0xcc, 0xdd, 0xee, 0xff]\<rparr>)
        (Some \<lparr>rta_len = 10, rta_type = TCA_FLOWER_KEY_ETH_DST_MASK,
                rta_data = [0xff, 0xff, 0xff, 0xff, 0xff, 0xff]\<rparr>)
      = Inr ''\<newline>  dst_mac aa:bb:cc:dd:ee:ff''"
proof -
  let ?st = "\<lparr> s_eth_type = 8, s_vlan_ethtype = 0, s_ip_proto = 0xff, s_flags = 0,
        s_msg = \<lparr> nlmsg_len = 40, tcm_info = 8, tcm_handle = 0,
                  attrs = [(36, \<lparr>rta_len = 4, rta_type = TCA_OPTIONS, rta_data = []\<rparr>)] \<rparr> \<rparr>"
  let ?st' = "\<lparr> s_eth_type = 8, s_vlan_ethtype = 0, s_ip_proto = 0xff, s_flags = 0,
        s_msg = \<lparr> nlmsg_len = 64, tcm_info = 8, tcm_handle = 0,
          attrs = [(36, \<lparr>rta_len = 4, rta_type = TCA_OPTIONS, rta_data = []\<rparr>),
                   (40, \<lparr>rta_len = 10, rta_type = TCA_FLOWER_KEY_ETH_DST,
                         rta_data = [0xaa, 0xbb, 0xcc, 0xdd, 0xee, 0xff]\<rparr>),
                   (52, \<lparr>rta_len = 10, rta_type = TCA_FLOWER_KEY_ETH_DST_MASK,
                         rta_data = [0xff, 0xff, 0xff, 0xff, 0xff, 0xff :: u8]\<rparr>)] \<rparr> \<rparr>"
  have run: "flower_parse_clause ref_env K_dst_mac ''aa:bb:cc:dd:ee:ff'' ?st = Inr ?st'"
    by (simp add: flower_parse_clause_def flower_parse_eth_addr_def ref_ll_addr_a2n_ex
        memset_def ETH_ALEN_def addattr_l_def NLMSG_ALIGN_def RTA_ALIGN_def RTA_LENGTH_def Let_def
        replicate6)
  have kw: "K_dst_mac = K_dst_mac \<or> K_dst_mac = K_src_mac" by simp
  from mac_mask_exact [OF kw run] obtain a where
    a: "length a = ETH_ALEN" and
    m: "s_msg ?st' = snd (addattr_l (snd (addattr_l (s_msg ?st) (MAX_MSG ref_env)
                              TCA_FLOWER_KEY_ETH_DST a))
                      (MAX_MSG ref_env) TCA_FLOWER_KEY_ETH_DST_MASK (replicate ETH_ALEN 0xff))" and
    p: "flower_print_eth_addr ref_env [] ''dst_mac''
          (Some \<lparr> rta_len = RTA_LENGTH ETH_ALEN, rta_type = TCA_FLOWER_KEY_ETH_DST,
                  rta_data = a \<rparr>)
          (Some \<lparr> rta_len = RTA_LENGTH ETH_ALEN, rta_type = TCA_FLOWER_KEY_ETH_DST_MASK,
                  rta_data = replicate ETH_ALEN 0xff \<rparr>)
        = Inr ([] @ ''\<newline>  '' @ ''dst_mac'' @ '' '' @ ll_addr_n2a ref_env a)"
    by auto
  from a m have "a = [0xaa, 0xbb, 0xcc, 0xdd, 0xee, 0xff]"
    by (simp add: addattr_l_def Let_def NLMSG_ALIGN_def RTA_ALIGN_def RTA_LENGTH_def ETH_ALEN_def
        replicate6)
  with p have "flower_print_eth_addr ref_env [] ''dst_mac''
        (Some \<lparr>rta_len = 10, rta_type = TCA_FLOWER_KEY_ETH_DST,
                rta_data = [0xaa, 0xbb, 0xcc, 0xdd, 0xee, 0xff]\<rparr>)
        (Some \<lparr>rta_len = 10, rta_type = TCA_FLOWER_KEY_ETH_DST_MASK,
                rta_data = [0xff, 0xff, 0xff, 0xff, 0xff, 0xff]\<rparr>)
      = Inr ''\<newline>  dst_mac aa:bb:cc:dd:ee:ff''"
    by (simp add: RTA_LENGTH_def RTA_ALIGN_def ETH_ALEN_def replicate6 ref_ll_addr_n2a_ex)
  with run show ?thesis by blast
qed

section \<open>The decoder: the port fields\<close>

text \<open>
  C1 at two attribute tables, for every environment: with no attribute at all the
  protocol is the initial \<open>0xff\<close>, \<open>flower_port_attr_type\<close> returns \<open>-1\<close> and the table
  is read at that index; with only the transport protocol attribute (TCP) the port
  attribute selected is absent and \<open>flower_print_port\<close> dereferences the null pointer.
\<close>

theorem print_port_faults:
  "flower_print_opt env f (Some (\<lambda>t. None)) h = Inl Out_Of_Bounds
   \<and> flower_print_opt env f
        (Some ((\<lambda>t. None)(TCA_FLOWER_KEY_IP_PROTO :=
                 Some \<lparr> rta_len = 5, rta_type = TCA_FLOWER_KEY_IP_PROTO, rta_data = [6] \<rparr>))) h
      = Inl Null_Deref"
  by (simp add: flower_print_opt_def then_do_def flower_print_eth_addr_def
      flower_print_eth_type_def flower_print_ip_proto_def flower_print_ip_addr_def
      flower_print_port_def tb_port_def flower_port_attr_type_def Let_def
      rta_getattr_u8_def rta_bytes_def htons_def ETH_P_IP_def ETH_P_IPV6_def
      IPPROTO_TCP_def IPPROTO_UDP_def IPPROTO_SCTP_def)

section \<open>names.c: loading a registry\<close>

text \<open>The loop of \<open>db_names_alloc\<close> runs over the lines that \<open>fgets\<close> delivers.\<close>

lemma db_names_load_lines: "db_names_load db fp = load_lines db (file_lines fp)"
proof (induction fp arbitrary: db rule: length_induct)
  case (1 fp)
  show ?case
  proof (cases "fgets NAME_MAX_LEN fp")
    case None
    then show ?thesis
      by (simp add: db_names_load.simps [of db fp] read_id_name.simps [of fp]
          file_lines.simps [of fp])
  next
    case (Some bf)
    obtain buf fp1 where bf: "bf = (buf, fp1)" by (cases bf)
    have less: "length fp1 < length fp"
      using Some bf by (auto simp: fgets_def NAME_MAX_LEN_def Let_def split: if_splits)
    have fl: "file_lines fp = buf # file_lines fp1"
      using Some bf by (simp add: file_lines.simps [of fp])
    have ih: "db_names_load d fp1 = load_lines d (file_lines fp1)" for d
      using "1.IH" less by blast
    show ?thesis
    proof (cases "read_line buf")
      case Skip
      then have "read_id_name fp = read_id_name fp1"
        using Some bf by (simp add: read_id_name.simps [of fp])
      then have "db_names_load db fp = db_names_load db fp1"
        by (simp add: db_names_load.simps [of db fp] db_names_load.simps [of db fp1])
      with Skip fl ih show ?thesis by simp
    next
      case (Bad p)
      then have "read_id_name fp = (Corrupt p, fp1)"
        using Some bf by (simp add: read_id_name.simps [of fp])
      with Bad fl show ?thesis by (simp add: db_names_load.simps [of db fp])
    next
      case (Pair_Read i nm)
      then have "read_id_name fp = (Entry_Read i nm, fp1)"
        using Some bf by (simp add: read_id_name.simps [of fp])
      with Pair_Read fl ih show ?thesis by (simp add: db_names_load.simps [of db fp])
    qed
  qed
qed

lemma read_line_Bad_iff:
  "read_line buf = Bad p \<longleftrightarrow> is_corrupt buf \<and> p = line_text buf"
  by (auto simp: read_line_def is_corrupt_def is_skipped_def is_accepted_def line_text_def Let_def
      split: option.splits)


lemma load_lines_no_corrupt:
  "find is_corrupt bufs = None \<Longrightarrow> \<exists>db'. load_lines db bufs = Inr db'"
proof (induction bufs arbitrary: db)
  case Nil
  then show ?case by simp
next
  case (Cons b bufs)
  from Cons.prems have nb: "\<not> is_corrupt b" and rest: "find is_corrupt bufs = None"
    by (simp_all split: if_splits)
  show ?case
  proof (cases "read_line b")
    case Skip
    with Cons.IH [OF rest, of db] show ?thesis by simp
  next
    case (Bad p)
    with nb read_line_Bad_iff [of b p] show ?thesis by simp
  next
    case (Pair_Read i nm)
    with Cons.IH [OF rest] show ?thesis by simp
  qed
qed


text \<open>
  The theorem on a file of three lines, the second of them corrupt: the first line is
  accepted, and still no registry comes back.
\<close>

lemmas scan_eval = read_line_def line_text_def is_skipped_def is_accepted_def is_corrupt_def
  cstr_def isspace_def two_of_def three_of_def scan_num_def scan_digits_def digit_val_def
  fmt_maj_min_nl_def fmt_maj_min_hash_def fmt_0x_nl_def fmt_0x_hash_def fmt_d_nl_def
  fmt_d_hash_def Let_def




section \<open>names.c: what a loaded registry holds\<close>

lemma hash_slot_bound: "db_size db = MAX_ENTRIES \<Longrightarrow> hash_slot db i < MAX_ENTRIES"
proof -
  assume sz: "db_size db = MAX_ENTRIES"
  have "i AND 255 \<le> (255 :: u32)" by (rule word_and_le1)
  then have "unat (i AND 255) \<le> unat (255 :: u32)" by (simp add: word_le_nat_alt)
  then show ?thesis using sz by (simp add: hash_slot_def MAX_ENTRIES_def)
qed

lemma cstr_no_nul [simp]: "CHR 0x00 \<notin> set (cstr s)"
  by (auto simp: cstr_def dest: set_takeWhileD)

lemma cstr_id: "CHR 0x00 \<notin> set s \<Longrightarrow> cstr s = s"
  by (auto simp: cstr_def takeWhile_eq_all_conv)


lemma db_insert_ok: "db_ok db \<Longrightarrow> db_ok (db_insert db i nm)"
proof -
  assume ok: "db_ok db"
  let ?s = "hash_slot db i"
  have s: "?s < length (db_hash db)"
    using ok hash_slot_bound [of db i] by (simp add: db_ok_def)
  have hs: "hash_slot (db_insert db i nm) j = hash_slot db j" for j
    by (simp add: hash_slot_def db_insert_def)
  show ?thesis
    unfolding db_ok_def
  proof (intro conjI allI impI ballI)
    show "db_size (db_insert db i nm) = MAX_ENTRIES"
      using ok by (simp add: db_ok_def db_insert_def)
    show "length (db_hash (db_insert db i nm)) = MAX_ENTRIES"
      using ok by (simp add: db_ok_def db_insert_def)
  next
    fix k e
    assume k: "k < length (db_hash (db_insert db i nm))"
      and e: "e \<in> set (db_hash (db_insert db i nm) ! k)"
    have k': "k < length (db_hash db)" using k by (simp add: db_insert_def)
    show "hash_slot (db_insert db i nm) (e_id e) = k"
    proof (cases "k = ?s")
      case True
      with e s have "e = \<lparr>e_id = i, e_name = cstr nm\<rparr> \<or> e \<in> set (db_hash db ! k)"
        by (auto simp: db_insert_def)
      with ok k' True show ?thesis by (auto simp: hs db_ok_def)
    next
      case False
      with e have "e \<in> set (db_hash db ! k)" by (simp add: db_insert_def)
      with ok k' show ?thesis by (auto simp: hs db_ok_def)
    qed
    show "CHR 0x00 \<notin> set (e_name e)"
    proof (cases "k = ?s")
      case True
      with e s have "e = \<lparr>e_id = i, e_name = cstr nm\<rparr> \<or> e \<in> set (db_hash db ! k)"
        by (auto simp: db_insert_def)
      with ok k' True show ?thesis by (auto simp: db_ok_def)
    next
      case False
      with e have "e \<in> set (db_hash db ! k)" by (simp add: db_insert_def)
      with ok k' show ?thesis by (auto simp: db_ok_def)
    qed
  qed
qed

lemma db_insert_cached [simp]: "db_cached (db_insert db i nm) = db_cached db"
  by (simp add: db_insert_def)

lemma load_lines_ok:
  "load_lines db bufs = Inr db' \<Longrightarrow> db_ok db \<Longrightarrow> db_ok db' \<and> db_cached db' = db_cached db"
proof (induction bufs arbitrary: db)
  case Nil
  then show ?case by simp
next
  case (Cons b bufs)
  show ?case
  proof (cases "read_line b")
    case Skip
    with Cons show ?thesis by simp
  next
    case (Bad p)
    with Cons.prems show ?thesis by simp
  next
    case (Pair_Read i nm)
    let ?d = "if sint i < 0 then db else db_insert db i nm"
    have ok: "db_ok ?d" using Cons.prems(2) by (simp add: db_insert_ok)
    from Cons.prems(1) Pair_Read have "load_lines ?d bufs = Inr db'" by simp
    from Cons.IH [OF this ok] show ?thesis by simp
  qed
qed

lemma hash_slot_size: "db_size a = db_size b \<Longrightarrow> hash_slot a = hash_slot b"
  by (simp add: hash_slot_def fun_eq_iff)

lemma registered_Nil [simp]: "registered [] = []"
  by (simp add: registered_def)

lemma registered_Cons:
  "registered (b # bufs) =
     (case read_line b of
        Pair_Read i nm \<Rightarrow> if sint i < 0 then [] else [\<lparr>e_id = i, e_name = cstr nm\<rparr>]
      | _ \<Rightarrow> []) @ registered bufs"
  by (simp add: registered_def)


text \<open>
  Every bucket holds the registered entries of its index, the one of the latest line
  first.
\<close>

lemma load_lines_hash:
  assumes "load_lines db bufs = Inr db'" "db_ok db" "k < MAX_ENTRIES"
  shows "db_hash db' ! k
         = filter (\<lambda>e. hash_slot db (e_id e) = k) (rev (registered bufs)) @ db_hash db ! k"
  using assms
proof (induction bufs arbitrary: db)
  case Nil
  then show ?case by simp
next
  case (Cons b bufs)
  show ?case
  proof (cases "read_line b")
    case Skip
    with Cons show ?thesis by (simp add: registered_Cons)
  next
    case (Bad p)
    with Cons.prems show ?thesis by simp
  next
    case (Pair_Read i nm)
    show ?thesis
    proof (cases "sint i < 0")
      case True
      with Pair_Read Cons show ?thesis by (simp add: registered_Cons)
    next
      case False
      let ?d = "db_insert db i nm"
      let ?e = "\<lparr>e_id = i, e_name = cstr nm\<rparr>"
      have ok: "db_ok ?d" using Cons.prems(2) by (rule db_insert_ok)
      have ld: "load_lines ?d bufs = Inr db'" using Cons.prems(1) Pair_Read False by simp
      have hs: "hash_slot ?d = hash_slot db"
        by (rule hash_slot_size) (simp add: db_insert_def)
      have len: "length (db_hash db) = MAX_ENTRIES" using Cons.prems(2) by (simp add: db_ok_def)
      have s: "hash_slot db i < MAX_ENTRIES"
        using Cons.prems(2) hash_slot_bound [of db i] by (simp add: db_ok_def)
      have bucket: "db_hash ?d ! k
          = (if hash_slot db i = k then [?e] else []) @ db_hash db ! k"
        using len s Cons.prems(3) by (simp add: db_insert_def nth_list_update)
      have reg: "registered (b # bufs) = ?e # registered bufs"
        using Pair_Read False by (simp add: registered_Cons)
      from Cons.IH [OF ld ok Cons.prems(3)] show ?thesis
        by (simp add: hs bucket reg)
    qed
  qed
qed

lemma db_names_alloc_ok:
  assumes "db_names_alloc path (Some fp) = Inr db"
  shows "db_ok db" "db_cached db = None"
    and "k < MAX_ENTRIES \<Longrightarrow>
         db_hash db ! k
         = filter (\<lambda>e. hash_slot db (e_id e) = k) (rev (registered (file_lines fp)))"
proof -
  let ?d0 = "\<lparr>db_size = MAX_ENTRIES, db_hash = replicate MAX_ENTRIES [], db_cached = None\<rparr>"
  from assms have ld: "load_lines ?d0 (file_lines fp) = Inr db"
    by (auto simp: db_names_alloc_def db_names_load_lines split: sum.splits)
  have ok0: "db_ok ?d0" by (simp add: db_ok_def)
  from load_lines_ok [OF ld ok0] show ok: "db_ok db" and "db_cached db = None" by simp_all
  have "hash_slot ?d0 = hash_slot db"
    by (rule hash_slot_size) (use ok in \<open>simp add: db_ok_def\<close>)
  with load_lines_hash [OF ld ok0]
  show "db_hash db ! k
         = filter (\<lambda>e. hash_slot db (e_id e) = k) (rev (registered (file_lines fp)))"
    if "k < MAX_ENTRIES" using that by simp
qed

lemma in_entries_iff:
  "e \<in> set (entries db) \<longleftrightarrow> (\<exists>k < length (db_hash db). e \<in> set (db_hash db ! k))"
proof
  assume "e \<in> set (entries db)"
  then obtain xs where xs: "xs \<in> set (db_hash db)" "e \<in> set xs"
    by (auto simp: entries_def)
  from xs(1) obtain k where "k < length (db_hash db)" "db_hash db ! k = xs"
    by (auto simp: in_set_conv_nth)
  with xs(2) show "\<exists>k < length (db_hash db). e \<in> set (db_hash db ! k)" by blast
next
  assume "\<exists>k < length (db_hash db). e \<in> set (db_hash db ! k)"
  then obtain k where "k < length (db_hash db)" "e \<in> set (db_hash db ! k)" by blast
  then show "e \<in> set (entries db)"
    by (auto simp: entries_def intro: nth_mem)
qed






lemma entries_alloc:
  assumes "db_names_alloc path (Some fp) = Inr db"
  shows "set (entries db) = set (registered (file_lines fp))"
proof -
  note a = db_names_alloc_ok [OF assms]
  have len: "length (db_hash db) = MAX_ENTRIES" using a(1) by (simp add: db_ok_def)
  have sz: "db_size db = MAX_ENTRIES" using a(1) by (simp add: db_ok_def)
  show ?thesis
  proof (intro set_eqI iffI)
    fix e
    assume "e \<in> set (entries db)"
    then obtain k where "k < MAX_ENTRIES" "e \<in> set (db_hash db ! k)"
      using len by (auto simp: in_entries_iff)
    with a(3) [of k] show "e \<in> set (registered (file_lines fp))" by simp
  next
    fix e
    assume e: "e \<in> set (registered (file_lines fp))"
    let ?k = "hash_slot db (e_id e)"
    have k: "?k < MAX_ENTRIES" using sz by (rule hash_slot_bound)
    with a(3) [of ?k] e have "e \<in> set (db_hash db ! ?k)" by simp
    with k len show "e \<in> set (entries db)" by (auto simp: in_entries_iff)
  qed
qed






section \<open>names.c: from an id to a name\<close>













section \<open>names.c: from a name to an id\<close>

lemma find_append':
  "find P (xs @ ys) = (case find P xs of Some x \<Rightarrow> Some x | None \<Rightarrow> find P ys)"
  by (induction xs) simp_all

lemma name_to_id_loop_find:
  assumes "db_size db = length (db_hash db)" "i \<le> length (db_hash db)"
  shows "name_to_id_loop db i name
         = Inr (find (\<lambda>entry. strcmp_eq (e_name entry) name) (concat (drop i (db_hash db))))"
  using assms
proof (induction db i name rule: name_to_id_loop.induct)
  case (1 db i name)
  show ?case
  proof (cases "i < length (db_hash db)")
    case False
    with "1.prems" show ?thesis by (subst name_to_id_loop.simps) simp
  next
    case True
    then have dr: "drop i (db_hash db) = db_hash db ! i # drop (Suc i) (db_hash db)"
      by (simp add: Cons_nth_drop_Suc)
    show ?thesis
    proof (cases "find (\<lambda>entry. strcmp_eq (e_name entry) name) (db_hash db ! i)")
      case None
      from "1.IH" [OF _ _ None] True "1.prems"
      have "name_to_id_loop db (i + 1) name
         = Inr (find (\<lambda>entry. strcmp_eq (e_name entry) name) (concat (drop (i + 1) (db_hash db))))"
        by simp
      with None True "1.prems" show ?thesis
        by (simp add: name_to_id_loop.simps [of db i] dr find_append')
    next
      case (Some e)
      with True "1.prems" show ?thesis
        by (simp add: name_to_id_loop.simps [of db i] dr find_append')
    qed
  qed
qed

lemma strcmp_eq_ok:
  "db_ok db \<Longrightarrow> e \<in> set (entries db) \<Longrightarrow> strcmp_eq (e_name e) name \<longleftrightarrow> e_name e = cstr name"
  by (auto simp: strcmp_eq_def in_entries_iff db_ok_def cstr_id)

lemma name_to_id_step:
  assumes ok: "db_ok db" and c: "cache_ok db"
  shows "\<exists>db' r. name_to_id db name = Inr (db', r)
           \<and> db_ok db' \<and> cache_ok db' \<and> db_hash db' = db_hash db \<and> lookup_ok db name r"
proof (cases "case db_cached db of None \<Rightarrow> False | Some c \<Rightarrow> strcmp_eq (e_name c) name")
  case True
  then obtain ce where ce: "db_cached db = Some ce" "strcmp_eq (e_name ce) name"
    by (cases "db_cached db") auto
  with c have mem: "ce \<in> set (entries db)" by (simp add: cache_ok_def)
  with ce ok have "e_name ce = cstr name" by (simp add: strcmp_eq_ok)
  with mem have "lookup_ok db name (Some (e_id ce))"
    by (auto simp: lookup_ok_def)
  moreover have "name_to_id db name = Inr (db, Some (e_id ce))"
    using True ce by (simp add: name_to_id_def)
  ultimately show ?thesis using ok c by simp
next
  case False
  let ?P = "\<lambda>entry. strcmp_eq (e_name entry) name"
  have sz: "db_size db = length (db_hash db)" using ok by (simp add: db_ok_def)
  have loop: "name_to_id_loop db 0 name = Inr (find ?P (entries db))"
    using name_to_id_loop_find [OF sz, of 0 name] by (simp add: entries_def)
  show ?thesis
  proof (cases "find ?P (entries db)")
    case None
    then have "\<not> (\<exists>e \<in> set (entries db). e_name e = cstr name)"
      using ok by (auto simp: find_None_iff strcmp_eq_ok)
    then have "lookup_ok db name None" by (simp add: lookup_ok_def)
    moreover have "name_to_id db name = Inr (db, None)"
      using False loop None by (simp add: name_to_id_def)
    ultimately show ?thesis using ok c by simp
  next
    case (Some e)
    then have e: "e \<in> set (entries db)" "?P e"
      by (auto simp: find_Some_iff intro: nth_mem)
    with ok have nm: "e_name e = cstr name" by (simp add: strcmp_eq_ok)
    let ?db' = "db\<lparr>db_cached := Some e\<rparr>"
    have r: "name_to_id db name = Inr (?db', Some (e_id e))"
      using False loop Some by (simp add: name_to_id_def)
    have "hash_slot ?db' = hash_slot db" by (simp add: hash_slot_def fun_eq_iff)
    then have "db_ok ?db'" using ok by (simp add: db_ok_def)
    moreover have "cache_ok ?db'" using e(1) by (simp add: cache_ok_def entries_def)
    moreover have "lookup_ok db name (Some (e_id e))"
      using e(1) nm by (auto simp: lookup_ok_def)
    ultimately show ?thesis using r by simp
  qed
qed

lemma lookup_ok_cong: "db_hash db' = db_hash db \<Longrightarrow> lookup_ok db' = lookup_ok db"
proof -
  assume "db_hash db' = db_hash db"
  then have "entries db' = entries db" by (simp add: entries_def)
  then show ?thesis by (intro ext) (simp add: lookup_ok_def split: option.splits)
qed

lemma name_to_id_calls_ok:
  assumes "db_ok db" "cache_ok db"
  shows "\<exists>db' rs. name_to_id_calls db names = Inr (db', rs)
           \<and> db_ok db' \<and> cache_ok db' \<and> db_hash db' = db_hash db
           \<and> list_all2 (lookup_ok db) names rs"
  using assms
proof (induction names arbitrary: db)
  case Nil
  then show ?case by simp
next
  case (Cons name names)
  from name_to_id_step [OF Cons.prems, of name] obtain db1 r where
    s: "name_to_id db name = Inr (db1, r)" "db_ok db1" "cache_ok db1"
       "db_hash db1 = db_hash db" "lookup_ok db name r"
    by blast
  from Cons.IH [OF s(2,3)] obtain db2 rs where
    t: "name_to_id_calls db1 names = Inr (db2, rs)" "db_ok db2" "cache_ok db2"
       "db_hash db2 = db_hash db1" "list_all2 (lookup_ok db1) names rs"
    by blast
  have "name_to_id_calls db (name # names) = Inr (db2, r # rs)"
    using s(1) t(1) by simp
  moreover have "list_all2 (lookup_ok db) (name # names) (r # rs)"
    using s(5) t(5) lookup_ok_cong [OF s(4)] by simp
  ultimately show ?case using t(2,3,4) s(4) by simp
qed

text \<open>
  C10.  On a loaded registry every sequence of \<open>name_to_id\<close> calls returns; afterwards
  the cache is empty or points to an entry stored in the table, and the table is the
  one that was loaded, holding the entries the file registers.  Every call of the
  sequence, whatever the cache holds when it is made, succeeds exactly when an entry
  with that name is stored, and the id it returns is the id of such an entry
  (\<open>lookup_ok\<close>).
\<close>

theorem name_to_id_cache:
  assumes "db_names_alloc path (Some fp) = Inr db0"
  shows "\<exists>db rs. name_to_id_calls db0 names = Inr (db, rs)
           \<and> cache_ok db \<and> db_hash db = db_hash db0
           \<and> set (entries db0) = set (registered (file_lines fp))
           \<and> list_all2 (lookup_ok db0) names rs"
proof -
  from db_names_alloc_ok(1,2) [OF assms] have "db_ok db0" "cache_ok db0"
    by (simp_all add: cache_ok_def)
  from name_to_id_calls_ok [OF this, of names] entries_alloc [OF assms]
  show ?thesis by blast
qed

text \<open>
  The theorem on a registry of two lines and four calls, the second of them answered
  from the cache, the third for a name that no line registers.
\<close>

lemma file_lines_two:
  "file_lines ''1 one\<newline>2 two\<newline>'' = [''1 one\<newline>'', ''2 two\<newline>'']"
  by (simp add: file_lines.simps fgets_def NAME_MAX_LEN_def Let_def)

lemma read_line_two:
  "read_line ''1 one\<newline>'' = Pair_Read 1 ''one''"
  "read_line ''2 two\<newline>'' = Pair_Read 2 ''two''"
  by (simp_all add: scan_eval)

lemma registered_two:
  "registered (file_lines ''1 one\<newline>2 two\<newline>'')
   = [\<lparr>e_id = 1, e_name = ''one''\<rparr>, \<lparr>e_id = 2, e_name = ''two''\<rparr>]"
  by (simp add: file_lines_two registered_Cons read_line_two cstr_def)

lemma alloc_two:
  "\<exists>db. db_names_alloc ''cls'' (Some ''1 one\<newline>2 two\<newline>'') = Inr db"
  by (simp add: db_names_alloc_def db_names_load_lines file_lines_two read_line_two)

lemma lookup_two:
  assumes "set (entries db) = {\<lparr>e_id = 1, e_name = ''one''\<rparr>, \<lparr>e_id = 2, e_name = ''two''\<rparr>}"
  shows "lookup_ok db ''one'' r \<longleftrightarrow> r = Some 1"
    and "lookup_ok db ''two'' r \<longleftrightarrow> r = Some 2"
    and "lookup_ok db ''ten'' r \<longleftrightarrow> r = None"
  by (cases r; simp add: lookup_ok_def assms cstr_def; fastforce)+

theorem name_to_id_cache_witness:
  "\<exists>db0 db. db_names_alloc ''cls'' (Some ''1 one\<newline>2 two\<newline>'') = Inr db0
     \<and> name_to_id_calls db0 [''two'', ''two'', ''ten'', ''one'']
         = Inr (db, [Some 2, Some 2, None, Some 1])
     \<and> cache_ok db \<and> db_hash db = db_hash db0"
proof -
  let ?fp = "''1 one\<newline>2 two\<newline>''"
  from alloc_two obtain db0 where db0: "db_names_alloc ''cls'' (Some ?fp) = Inr db0" ..
  from name_to_id_cache [OF db0, of "[''two'', ''two'', ''ten'', ''one'']"]
  obtain db rs where
    r: "name_to_id_calls db0 [''two'', ''two'', ''ten'', ''one''] = Inr (db, rs)"
       "cache_ok db" "db_hash db = db_hash db0" and
    e: "set (entries db0) = set (registered (file_lines ?fp))" and
    l: "list_all2 (lookup_ok db0) [''two'', ''two'', ''ten'', ''one''] rs"
    by blast
  from e have e': "set (entries db0)
      = {\<lparr>e_id = 1, e_name = ''one''\<rparr>, \<lparr>e_id = 2, e_name = ''two''\<rparr>}"
    by (simp add: registered_two)
  from l have "rs = [Some 2, Some 2, None, Some 1]"
    by (simp add: list_all2_Cons1 lookup_two [OF e'])
  with db0 r show ?thesis by blast
qed

end
